theory Spec2Isabelle
  imports Main "HOL-Library.AList" "HOL-Library.Char_ord" "HOL-Library.List_Lexorder"
begin

section \<open>Paths: the part of path/filepath the driver uses (Unix separator)\<close>

text \<open>
  The driver builds every path with \<^verbatim>\<open>filepath.Join\<close> and by appending the suffixes
  \<^verbatim>\<open>".json"\<close> and \<^verbatim>\<open>".tmp"\<close> to the strings it returns. \<^verbatim>\<open>Join\<close> joins the elements
  from the first non-empty one on with the separator and cleans the result; \<^verbatim>\<open>Clean\<close>
  drops empty and \<^verbatim>\<open>.\<close> elements, lets an inner \<^verbatim>\<open>..\<close> remove the element before it,
  drops \<^verbatim>\<open>..\<close> at the start of a rooted path, and returns \<^verbatim>\<open>.\<close> for an empty result.
\<close>

fun split_sep :: "string \<Rightarrow> string list" where
  "split_sep [] = [[]]"
| "split_sep (c # cs) =
     (if c = CHR ''/'' then [] # split_sep cs
      else (case split_sep cs of [] \<Rightarrow> [[c]] | x # xs \<Rightarrow> (c # x) # xs))"

fun join_sep :: "string list \<Rightarrow> string" where
  "join_sep [] = []"
| "join_sep [x] = x"
| "join_sep (x # y # ys) = x @ ''/'' @ join_sep (y # ys)"

text \<open>One element of \<^verbatim>\<open>Clean\<close>'s loop; \<open>out\<close> holds the elements written so far, last first.\<close>

definition clean_elem :: "bool \<Rightarrow> string list \<Rightarrow> string \<Rightarrow> string list" where
  "clean_elem rooted out e =
     (if e = [] \<or> e = ''.'' then out
      else if e = ''..'' then
        (case out of
           [] \<Rightarrow> if rooted then [] else [''..'']
         | t # ts \<Rightarrow> if t = ''..'' then (if rooted then out else ''..'' # out) else ts)
      else e # out)"

definition Clean :: "string \<Rightarrow> string" where
  "Clean p =
     (if p = [] then ''.''
      else
        let rooted = (hd p = CHR ''/'');
            out = rev (foldl (clean_elem rooted) [] (split_sep p))
        in if rooted then CHR ''/'' # join_sep out
           else if out = [] then ''.'' else join_sep out)"

definition Join :: "string list \<Rightarrow> string" where
  "Join elem =
     (case dropWhile (\<lambda>e. e = []) elem of
        [] \<Rightarrow> []
      | e # es \<Rightarrow> Clean (join_sep (e # es)))"

section \<open>Errors\<close>

text \<open>
  Go's \<^verbatim>\<open>error\<close> values, one constructor per place they come from:
  the \<^verbatim>\<open>fmt.Errorf("Missing ...")\<close> of \<^verbatim>\<open>Write\<close>, \<^verbatim>\<open>Read\<close> and \<^verbatim>\<open>ReadAll\<close> (the spec's
  InvalidArgument), the \<^verbatim>\<open>fmt.Errorf("Unable to find ...")\<close> of \<^verbatim>\<open>Delete\<close> (the spec's
  NotFound), the \<^verbatim>\<open>*PathError\<close> and \<^verbatim>\<open>*LinkError\<close> of package os (operation and errno; the
  path fields, which only the message uses, are left out), and the errors of encoding/json.
\<close>

datatype errno = ENOENT | ENOTDIR | EISDIR | ENOTEMPTY | EINVAL | ENOSPC

datatype error =
    InvalidArgument string
  | NotFound string
  | PathError string errno
  | LinkError string errno
  | SerializationError string

text \<open>\<^verbatim>\<open>os.IsNotExist\<close>.\<close>

fun IsNotExist :: "error \<Rightarrow> bool" where
  "IsNotExist (PathError _ e) = (e = ENOENT)"
| "IsNotExist (LinkError _ e) = (e = ENOENT)"
| "IsNotExist _ = False"

text \<open>The error kinds of the specification, read off an error value.\<close>

fun is_not_found :: "error \<Rightarrow> bool" where
  "is_not_found (NotFound _) = True"
| "is_not_found e = IsNotExist e"

fun is_io_error :: "error \<Rightarrow> bool" where
  "is_io_error (PathError _ _) = True"
| "is_io_error (LinkError _ _) = True"
| "is_io_error _ = False"

section \<open>The file system\<close>

text \<open>
  A file system is a table from absolute paths (lists of names below the root directory)
  to nodes; the root directory itself always exists. The process has a working directory
  against which relative paths are resolved, the device takes \<open>space\<close> more bytes of
  file content, and the \<open>trace\<close> records every call the program makes to package os,
  oldest first.
\<close>

datatype node = File string | Dir

datatype call =
    CStat string
  | CMkdirAll string
  | CWriteFile string string
  | CRename string string
  | CReadFile string
  | CReadDir string
  | CRemove string
  | CRemoveAll string

record world =
  files :: "(string list \<times> node) list"
  cwd :: "string list"
  space :: nat
  trace :: "call list"

definition logc :: "call \<Rightarrow> world \<Rightarrow> world" where
  "logc c w = w\<lparr>trace := trace w @ [c]\<rparr>"

definition node_at :: "(string list \<times> node) list \<Rightarrow> string list \<Rightarrow> node option" where
  "node_at fs k = (if k = [] then Some Dir else map_of fs k)"

text \<open>Path lookup as the kernel walks it: every name before the last must be a directory.\<close>

fun lookup_from :: "(string list \<times> node) list \<Rightarrow> string list \<Rightarrow> string list \<Rightarrow> errno + node" where
  "lookup_from fs pre [] =
     (case node_at fs pre of None \<Rightarrow> Inl ENOENT | Some n \<Rightarrow> Inr n)"
| "lookup_from fs pre (x # xs) =
     (case node_at fs pre of
        None \<Rightarrow> Inl ENOENT
      | Some (File _) \<Rightarrow> Inl ENOTDIR
      | Some Dir \<Rightarrow> lookup_from fs (pre @ [x]) xs)"

definition lookup :: "(string list \<times> node) list \<Rightarrow> string list \<Rightarrow> errno + node" where
  "lookup fs k = lookup_from fs [] k"

definition walk_elem :: "string list \<Rightarrow> string \<Rightarrow> string list" where
  "walk_elem st e =
     (if e = [] \<or> e = ''.'' then st else if e = ''..'' then tl st else e # st)"

text \<open>The absolute path a path string names; the empty string names nothing.\<close>

definition resolve :: "world \<Rightarrow> string \<Rightarrow> string list option" where
  "resolve w p =
     (if p = [] then None
      else Some (rev (foldl walk_elem (if hd p = CHR ''/'' then [] else rev (cwd w)) (split_sep p))))"

definition is_under :: "string list \<Rightarrow> string list \<Rightarrow> bool" where
  "is_under k0 k = (take (length k0) k = k0)"

definition children :: "(string list \<times> node) list \<Rightarrow> string list \<Rightarrow> string list" where
  "children fs k = sort (remdups (map (last \<circ> fst) (filter (\<lambda>(k', n). k' \<noteq> [] \<and> butlast k' = k) fs)))"

subsection \<open>The calls of package os and io/ioutil the driver makes\<close>

datatype file_mode = ModeDir | ModeRegular | ModeIrregular

definition mode_of :: "node \<Rightarrow> file_mode" where
  "mode_of n = (case n of Dir \<Rightarrow> ModeDir | File _ \<Rightarrow> ModeRegular)"

definition os_Stat :: "string \<Rightarrow> world \<Rightarrow> (error + file_mode) \<times> world" where
  "os_Stat p w =
     (case resolve w p of
        None \<Rightarrow> Inl (PathError ''stat'' ENOENT)
      | Some k \<Rightarrow>
          (case lookup (files w) k of
             Inl e \<Rightarrow> Inl (PathError ''stat'' e)
           | Inr n \<Rightarrow> Inr (mode_of n)),
      logc (CStat p) w)"

text \<open>
  \<^verbatim>\<open>os.MkdirAll\<close>: walks down from the root, creates every missing directory and fails
  with ENOTDIR, creating nothing, when a name on the way is a file.
\<close>

fun mkdirs :: "(string list \<times> node) list \<Rightarrow> string list \<Rightarrow> string list \<Rightarrow> errno + (string list \<times> node) list" where
  "mkdirs fs pre [] = Inr fs"
| "mkdirs fs pre (x # xs) =
     (case node_at fs (pre @ [x]) of
        Some Dir \<Rightarrow> mkdirs fs (pre @ [x]) xs
      | Some (File _) \<Rightarrow> Inl ENOTDIR
      | None \<Rightarrow> mkdirs (AList.update (pre @ [x]) Dir fs) (pre @ [x]) xs)"

definition os_MkdirAll :: "string \<Rightarrow> world \<Rightarrow> error option \<times> world" where
  "os_MkdirAll p w =
     (let w' = logc (CMkdirAll p) w in
      case resolve w p of
        None \<Rightarrow> (Some (PathError ''mkdir'' ENOENT), w')
      | Some k \<Rightarrow>
          (case mkdirs (files w) [] k of
             Inl e \<Rightarrow> (Some (PathError ''mkdir'' e), w')
           | Inr fs \<Rightarrow> (None, w'\<lparr>files := fs\<rparr>)))"

text \<open>
  \<^verbatim>\<open>ioutil.WriteFile\<close>: opens the file for writing, creating or truncating it, and writes
  the bytes. The open fails on a directory and where the parent directory is missing.
  The write stores the bytes the device has space for and fails with ENOSPC when that
  is not all of them, leaving the file with what was stored. Space that truncating or
  removing a file would free is not counted back.
\<close>

definition write_bytes :: "string list \<Rightarrow> string \<Rightarrow> world \<Rightarrow> error option \<times> world" where
  "write_bytes k b w =
     (if length b \<le> space w then
        (None, w\<lparr>files := AList.update k (File b) (files w), space := space w - length b\<rparr>)
      else
        (Some (PathError ''write'' ENOSPC),
         w\<lparr>files := AList.update k (File (take (space w) b)) (files w), space := 0\<rparr>))"

definition os_WriteFile :: "string \<Rightarrow> string \<Rightarrow> world \<Rightarrow> error option \<times> world" where
  "os_WriteFile p b w =
     (let w' = logc (CWriteFile p b) w in
      case resolve w p of
        None \<Rightarrow> (Some (PathError ''open'' ENOENT), w')
      | Some k \<Rightarrow>
          (case lookup (files w) k of
             Inr Dir \<Rightarrow> (Some (PathError ''open'' EISDIR), w')
           | Inr (File _) \<Rightarrow> write_bytes k b w'
           | Inl ENOENT \<Rightarrow>
               (case lookup (files w) (butlast k) of
                  Inr Dir \<Rightarrow> write_bytes k b w'
                | Inr (File _) \<Rightarrow> (Some (PathError ''open'' ENOTDIR), w')
                | Inl e \<Rightarrow> (Some (PathError ''open'' e), w'))
           | Inl e \<Rightarrow> (Some (PathError ''open'' e), w')))"

definition os_ReadFile :: "string \<Rightarrow> world \<Rightarrow> (error + string) \<times> world" where
  "os_ReadFile p w =
     (case resolve w p of
        None \<Rightarrow> Inl (PathError ''open'' ENOENT)
      | Some k \<Rightarrow>
          (case lookup (files w) k of
             Inl e \<Rightarrow> Inl (PathError ''open'' e)
           | Inr Dir \<Rightarrow> Inl (PathError ''read'' EISDIR)
           | Inr (File b) \<Rightarrow> Inr b),
      logc (CReadFile p) w)"

text \<open>\<^verbatim>\<open>ioutil.ReadDir\<close>: the names in a directory, sorted.\<close>

definition os_ReadDir :: "string \<Rightarrow> world \<Rightarrow> (error + string list) \<times> world" where
  "os_ReadDir p w =
     (case resolve w p of
        None \<Rightarrow> Inl (PathError ''open'' ENOENT)
      | Some k \<Rightarrow>
          (case lookup (files w) k of
             Inl e \<Rightarrow> Inl (PathError ''open'' e)
           | Inr (File _) \<Rightarrow> Inl (PathError ''readdirent'' ENOTDIR)
           | Inr Dir \<Rightarrow> Inr (children (files w) k)),
      logc (CReadDir p) w)"

text \<open>\<^verbatim>\<open>os.Remove\<close>: removes a file or an empty directory.\<close>

definition os_Remove :: "string \<Rightarrow> world \<Rightarrow> error option \<times> world" where
  "os_Remove p w =
     (let w' = logc (CRemove p) w in
      case resolve w p of
        None \<Rightarrow> (Some (PathError ''remove'' ENOENT), w')
      | Some k \<Rightarrow>
          (case lookup (files w) k of
             Inl e \<Rightarrow> (Some (PathError ''remove'' e), w')
           | Inr (File _) \<Rightarrow> (None, w'\<lparr>files := AList.delete k (files w)\<rparr>)
           | Inr Dir \<Rightarrow>
               if k = [] then (Some (PathError ''remove'' EINVAL), w')
               else if children (files w) k = [] then (None, w'\<lparr>files := AList.delete k (files w)\<rparr>)
               else (Some (PathError ''remove'' ENOTEMPTY), w')))"

text \<open>
  \<^verbatim>\<open>os.RemoveAll\<close>: removes the path and everything below it; a path that does not
  exist is no error, the empty path does nothing, and a path that ends in a \<^verbatim>\<open>.\<close>
  element is refused with EINVAL.
\<close>

definition endsWithDot :: "string \<Rightarrow> bool" where
  "endsWithDot p = (p = ''.'' \<or> (length p \<ge> 2 \<and> drop (length p - 2) p = ''/.''))"

definition os_RemoveAll :: "string \<Rightarrow> world \<Rightarrow> error option \<times> world" where
  "os_RemoveAll p w =
     (let w' = logc (CRemoveAll p) w in
      if p = [] then (None, w')
      else if endsWithDot p then (Some (PathError ''RemoveAll'' EINVAL), w')
      else
        case resolve w p of
          None \<Rightarrow> (None, w')
        | Some k \<Rightarrow>
            (case lookup (files w) k of
               Inl ENOENT \<Rightarrow> (None, w')
             | Inl e \<Rightarrow> (Some (PathError ''unlinkat'' e), w')
             | Inr _ \<Rightarrow> (None, w'\<lparr>files := filter (\<lambda>(k', n). \<not> is_under k k') (files w)\<rparr>)))"

text \<open>
  \<^verbatim>\<open>os.Rename\<close>: moves a file over a file or to a free name, and a directory, with all
  below it, over an empty directory or to a free name outside itself.
\<close>

definition move_tree :: "string list \<Rightarrow> string list \<Rightarrow> (string list \<times> node) list \<Rightarrow> (string list \<times> node) list" where
  "move_tree ko kn fs =
     map (\<lambda>(k, n). (if is_under ko k then kn @ drop (length ko) k else k, n))
       (filter (\<lambda>(k, n). \<not> is_under kn k) fs)"

definition os_Rename :: "string \<Rightarrow> string \<Rightarrow> world \<Rightarrow> error option \<times> world" where
  "os_Rename old new w =
     (let w' = logc (CRename old new) w; fs = files w in
      case (resolve w old, resolve w new) of
        (Some ko, Some kn) \<Rightarrow>
          (case lookup fs ko of
             Inl e \<Rightarrow> (Some (LinkError ''rename'' e), w')
           | Inr src \<Rightarrow>
               if ko = kn then (None, w')
               else if ko = [] then (Some (LinkError ''rename'' EINVAL), w')
               else if is_under ko kn then (Some (LinkError ''rename'' EINVAL), w')
               else
                 (case (src, lookup fs kn) of
                    (File b, Inr (File _)) \<Rightarrow>
                      (None, w'\<lparr>files := AList.update kn (File b) (AList.delete ko fs)\<rparr>)
                  | (File b, Inr Dir) \<Rightarrow> (Some (LinkError ''rename'' EISDIR), w')
                  | (Dir, Inr (File _)) \<Rightarrow> (Some (LinkError ''rename'' ENOTDIR), w')
                  | (Dir, Inr Dir) \<Rightarrow>
                      if kn = [] then (Some (LinkError ''rename'' EINVAL), w')
                      else if children fs kn = [] then (None, w'\<lparr>files := move_tree ko kn fs\<rparr>)
                      else (Some (LinkError ''rename'' ENOTEMPTY), w')
                  | (_, Inl ENOENT) \<Rightarrow>
                      (case lookup fs (butlast kn) of
                         Inr Dir \<Rightarrow>
                           (case src of
                              File b \<Rightarrow> (None, w'\<lparr>files := AList.update kn (File b) (AList.delete ko fs)\<rparr>)
                            | Dir \<Rightarrow> (None, w'\<lparr>files := move_tree ko kn fs\<rparr>))
                       | Inr (File _) \<Rightarrow> (Some (LinkError ''rename'' ENOTDIR), w')
                       | Inl e \<Rightarrow> (Some (LinkError ''rename'' e), w'))
                  | (_, Inl e) \<Rightarrow> (Some (LinkError ''rename'' e), w')))
      | _ \<Rightarrow> (Some (LinkError ''rename'' ENOENT), w'))"

section \<open>The driver\<close>

text \<open>
  \<^verbatim>\<open>Driver\<close>: the registry \<open>mutexes\<close> maps a collection name to the address of its
  \<^verbatim>\<open>sync.Mutex\<close>, and \<open>dir\<close> is the root directory. Addresses are natural numbers and
  \<open>next_mutex\<close> is the next address \<^verbatim>\<open>&sync.Mutex{}\<close> allocates. The logger is used by
  \<^verbatim>\<open>New\<close> alone and is left out. Calls run one at a time here, so a mutex is free when
  a call locks it and free again when the call returns.
\<close>

record driver =
  mutexes :: "string \<rightharpoonup> nat"
  next_mutex :: nat
  dir :: string

definition getOrCreateMutex :: "string \<Rightarrow> driver \<Rightarrow> nat \<times> driver" where
  "getOrCreateMutex collection d =
     (case mutexes d collection of
        Some m \<Rightarrow> (m, d)
      | None \<Rightarrow>
          (next_mutex d,
           d\<lparr>mutexes := (mutexes d)(collection \<mapsto> next_mutex d),
             next_mutex := Suc (next_mutex d)\<rparr>))"

definition ext :: string where
  "ext = ''.json''"

definition stat :: "string \<Rightarrow> world \<Rightarrow> (error + file_mode) \<times> world" where
  "stat path w =
     (case os_Stat path w of
        (Inl e, w1) \<Rightarrow> if IsNotExist e then os_Stat (path @ ext) w1 else (Inl e, w1)
      | (Inr fi, w1) \<Rightarrow> (Inr fi, w1))"

definition New :: "string \<Rightarrow> world \<Rightarrow> (driver \<times> error option) \<times> world" where
  "New dir0 w =
     (let d = \<lparr>mutexes = Map.empty, next_mutex = 0, dir = Clean dir0\<rparr> in
      case os_Stat (Clean dir0) w of
        (Inr _, w1) \<Rightarrow> ((d, None), w1)
      | (Inl _, w1) \<Rightarrow> (case os_MkdirAll (Clean dir0) w1 of (e, w2) \<Rightarrow> ((d, e), w2)))"

text \<open>
  The value written is of any type \<open>'v\<close>; \<^verbatim>\<open>json.MarshalIndent\<close> and \<^verbatim>\<open>json.Unmarshal\<close>
  are parameters \<open>marshal\<close> and \<open>unmarshal\<close> of the operations.
\<close>

definition Write :: "('v \<Rightarrow> error + string) \<Rightarrow> string \<Rightarrow> string \<Rightarrow> 'v \<Rightarrow> driver \<Rightarrow> world
    \<Rightarrow> error option \<times> driver \<times> world" where
  "Write marshal collection resource v d w =
     (if collection = [] then
        (Some (InvalidArgument ''Missing collection- no place to save record''), d, w)
      else if resource = [] then
        (Some (InvalidArgument ''Missing resource- no name for the record''), d, w)
      else
        let (mutex, d1) = getOrCreateMutex collection d;
            dir = Join [dir d, collection];
            fnlPath = Join [dir, resource @ ext];
            tempPath = fnlPath @ ''.tmp''
        in case os_MkdirAll dir w of
             (Some e, w1) \<Rightarrow> (Some e, d1, w1)
           | (None, w1) \<Rightarrow>
               (case marshal v of
                  Inl e \<Rightarrow> (Some e, d1, w1)
                | Inr b \<Rightarrow>
                    (case os_WriteFile tempPath (b @ [CHR 0x0A]) w1 of
                       (Some e, w2) \<Rightarrow> (Some e, d1, w2)
                     | (None, w2) \<Rightarrow>
                         (case os_Rename tempPath fnlPath w2 of (e, w3) \<Rightarrow> (e, d1, w3)))))"

definition Read :: "(string \<Rightarrow> error + 'v) \<Rightarrow> string \<Rightarrow> string \<Rightarrow> driver \<Rightarrow> world
    \<Rightarrow> (error + 'v) \<times> world" where
  "Read unmarshal collection resource d w =
     (if collection = [] then
        (Inl (InvalidArgument ''Missing collection- no place to save record''), w)
      else if resource = [] then
        (Inl (InvalidArgument ''Missing resource- no name for the record''), w)
      else
        let record = Join [dir d, collection, resource @ ext]
        in case stat record w of
             (Inl e, w1) \<Rightarrow> (Inl e, w1)
           | (Inr _, w1) \<Rightarrow>
               (case os_ReadFile (record @ ext) w1 of
                  (Inl e, w2) \<Rightarrow> (Inl e, w2)
                | (Inr b, w2) \<Rightarrow> (unmarshal b, w2)))"

text \<open>
  The loop of \<^verbatim>\<open>ReadAll\<close>. The result is the pair Go returns: the records and the error,
  \<^verbatim>\<open>nil\<close> being the empty list and \<open>None\<close>.
\<close>

fun read_files :: "string \<Rightarrow> string list \<Rightarrow> string list \<Rightarrow> world
    \<Rightarrow> (string list \<times> error option) \<times> world" where
  "read_files cdir [] records w = ((records, None), w)"
| "read_files cdir (name # rest) records w =
     (case os_ReadFile (Join [cdir, name]) w of
        (Inl e, w1) \<Rightarrow> (([], Some e), w1)
      | (Inr b, w1) \<Rightarrow> read_files cdir rest (records @ [b]) w1)"

definition ReadAll :: "string \<Rightarrow> driver \<Rightarrow> world \<Rightarrow> (string list \<times> error option) \<times> world" where
  "ReadAll collection d w =
     (if collection = [] then
        (([], Some (InvalidArgument ''Missing collection- no place to save record'')), w)
      else
        let dir = Join [dir d, collection]
        in case stat dir w of
             (Inl e, w1) \<Rightarrow> (([], Some e), w1)
           | (Inr _, w1) \<Rightarrow>
               (case os_ReadDir dir w1 of
                  (Inl _, w2) \<Rightarrow> read_files dir [] [] w2
                | (Inr names, w2) \<Rightarrow> read_files dir names [] w2))"

definition Delete :: "string \<Rightarrow> string \<Rightarrow> driver \<Rightarrow> world \<Rightarrow> error option \<times> driver \<times> world" where
  "Delete collection resource d w =
     (let path = Join [collection, resource];
          (mutex, d1) = getOrCreateMutex collection d;
          dir = Join [dir d, path]
      in case stat dir w of
           (Inl _, w1) \<Rightarrow>
             (Some (NotFound (''Unable to find file or directory named '' @ path @ [CHR 0x0A])), d1, w1)
         | (Inr ModeDir, w1) \<Rightarrow> (case os_RemoveAll dir w1 of (e, w2) \<Rightarrow> (e, d1, w2))
         | (Inr ModeRegular, w1) \<Rightarrow> (case os_Remove (dir @ ext) w1 of (e, w2) \<Rightarrow> (e, d1, w2))
         | (Inr ModeIrregular, w1) \<Rightarrow> (None, d1, w1))"

section \<open>Notions used in the statements\<close>


text \<open>
  The content of the regular file at a path: what \<^verbatim>\<open>ioutil.ReadFile\<close> would return there.
\<close>

definition file_at :: "world \<Rightarrow> string \<Rightarrow> string option" where
  "file_at w p = (case fst (os_ReadFile p w) of Inl _ \<Rightarrow> None | Inr b \<Rightarrow> Some b)"

text \<open>
  A plain path is a relative path in clean form that stays below where it starts: its
  elements are non-empty and none of them is \<^verbatim>\<open>.\<close> or \<^verbatim>\<open>..\<close>.
\<close>

definition plain_elem :: "string \<Rightarrow> bool" where
  "plain_elem e = (e \<noteq> [] \<and> e \<noteq> ''.'' \<and> e \<noteq> ''..'')"

definition plain_path :: "string \<Rightarrow> bool" where
  "plain_path c = list_all plain_elem (split_sep c)"

text \<open>
  The calls a program makes on a store, and a run of them one after another; each step
  keeps the driver and the world the call leaves.
\<close>

datatype 'v op =
    OpWrite string string 'v
  | OpRead string string
  | OpReadAll string
  | OpDelete string string

fun step :: "('v \<Rightarrow> error + string) \<Rightarrow> (string \<Rightarrow> error + 'v) \<Rightarrow> driver \<times> world \<Rightarrow> 'v op \<Rightarrow> driver \<times> world" where
  "step marshal unmarshal (d, w) (OpWrite c r v) = snd (Write marshal c r v d w)"
| "step marshal unmarshal (d, w) (OpRead c r) = (d, snd (Read unmarshal c r d w))"
| "step marshal unmarshal (d, w) (OpReadAll c) = (d, snd (ReadAll c d w))"
| "step marshal unmarshal (d, w) (OpDelete c r) = snd (Delete c r d w)"

definition run :: "('v \<Rightarrow> error + string) \<Rightarrow> (string \<Rightarrow> error + 'v) \<Rightarrow> 'v op list \<Rightarrow> driver \<times> world \<Rightarrow> driver \<times> world" where
  "run marshal unmarshal ops s = foldl (step marshal unmarshal) s ops"

section \<open>Example inputs\<close>

text \<open>
  Stores as \<^verbatim>\<open>New\<close> returns them, opened on \<^verbatim>\<open>./\<close> as \<^verbatim>\<open>main\<close> does and on \<^verbatim>\<open>db\<close>; a
  serializer for values that are strings already, and one that fails.
\<close>

definition store0 :: driver where
  "store0 = \<lparr>mutexes = Map.empty, next_mutex = 0, dir = Clean ''./''\<rparr>"

definition store_db :: driver where
  "store_db = \<lparr>mutexes = Map.empty, next_mutex = 0, dir = Clean ''db''\<rparr>"

definition marshal_str :: "string \<Rightarrow> error + string" where
  "marshal_str s = Inr s"

definition unmarshal_str :: "string \<Rightarrow> error + string" where
  "unmarshal_str b = Inr b"

definition marshal_fail :: "string \<Rightarrow> error + string" where
  "marshal_fail s = Inl (SerializationError ''json: unsupported value'')"

text \<open>
  Worlds with the process in the root directory: an empty one; a collection \<^verbatim>\<open>users\<close>
  with one and with two resources; the same on a device with two bytes left; with a
  directory where the temporary file of resource \<^verbatim>\<open>a\<close> would go; with a subdirectory; with
  a directory named like a resource file; a file \<^verbatim>\<open>users.json\<close> and no directory
  \<^verbatim>\<open>users\<close>; a regular file named \<^verbatim>\<open>users\<close>; and the root \<^verbatim>\<open>db\<close> of a store with a
  file beside it.
\<close>

definition empty_world :: world where
  "empty_world = \<lparr>files = [], cwd = [], space = 1000, trace = []\<rparr>"

definition world_one_user :: world where
  "world_one_user =
     \<lparr>files = [([''users''], Dir), ([''users'', ''a.json''], File ''old'')], cwd = [], space = 1000, trace = []\<rparr>"

definition world_two_users :: world where
  "world_two_users =
     \<lparr>files = [([''users''], Dir), ([''users'', ''b.json''], File ''B''), ([''users'', ''a.json''], File ''A'')],
      cwd = [], space = 1000, trace = []\<rparr>"

definition world_full :: world where
  "world_full =
     \<lparr>files = [([''users''], Dir), ([''users'', ''a.json''], File ''old'')], cwd = [], space = 2, trace = []\<rparr>"

definition world_tmp_dir :: world where
  "world_tmp_dir =
     \<lparr>files = [([''users''], Dir), ([''users'', ''a.json''], File ''old''), ([''users'', ''a.json.tmp''], Dir)],
      cwd = [], space = 1000, trace = []\<rparr>"

definition world_subdir :: world where
  "world_subdir =
     \<lparr>files = [([''users''], Dir), ([''users'', ''a.json''], File ''A''), ([''users'', ''sub''], Dir)],
      cwd = [], space = 1000, trace = []\<rparr>"


definition world_users_json :: world where
  "world_users_json = \<lparr>files = [([''users.json''], File ''x'')], cwd = [], space = 1000, trace = []\<rparr>"

definition world_users_file :: world where
  "world_users_file = \<lparr>files = [([''users''], File ''x'')], cwd = [], space = 1000, trace = []\<rparr>"

definition world_db :: world where
  "world_db = \<lparr>files = [([''db''], Dir), ([''x.json''], File ''X'')], cwd = [], space = 1000, trace = []\<rparr>"

definition example_ops :: "string op list" where
  "example_ops =
     [OpWrite ''users'' ''a'' ''{}'', OpRead ''users'' ''a'', OpWrite ''posts'' ''p'' ''{}'',
      OpReadAll ''users'', OpDelete ''users'' ''a'', OpDelete ''users'' []]"

section \<open>Facts about the file-system calls\<close>

lemma resolve_logc [simp]: "resolve (logc c w) p = resolve w p"
  by (simp add: resolve_def logc_def)

lemma files_logc [simp]: "files (logc c w) = files w"
  by (simp add: logc_def)

lemma cwd_logc [simp]: "cwd (logc c w) = cwd w"
  by (simp add: logc_def)

lemma trace_logc [simp]: "trace (logc c w) = trace w @ [c]"
  by (simp add: logc_def)

lemma os_Stat_logc [simp]: "fst (os_Stat p (logc c w)) = fst (os_Stat p w)"
  by (simp add: os_Stat_def split: option.splits)

lemma snd_os_Stat [simp]: "snd (os_Stat p w) = logc (CStat p) w"
  by (simp add: os_Stat_def split: option.splits)

lemma os_ReadFile_logc [simp]: "fst (os_ReadFile p (logc c w)) = fst (os_ReadFile p w)"
  by (simp add: os_ReadFile_def split: option.splits)

lemma snd_os_ReadFile [simp]: "snd (os_ReadFile p w) = logc (CReadFile p) w"
  by (simp add: os_ReadFile_def split: option.splits)

lemma stat_eq:
  "stat p w =
     (case fst (os_Stat p w) of
        Inl e \<Rightarrow>
          if IsNotExist e then (fst (os_Stat (p @ ext) w), logc (CStat (p @ ext)) (logc (CStat p) w))
          else (Inl e, logc (CStat p) w)
      | Inr fi \<Rightarrow> (Inr fi, logc (CStat p) w))"
proof -
  have pair: "\<And>q u. os_Stat q u = (fst (os_Stat q u), logc (CStat q) u)"
    by (simp add: prod_eq_iff)
  show ?thesis
    unfolding stat_def
    by (subst pair, subst (2) pair) (simp split: sum.splits)
qed


lemma os_Stat_error: "fst (os_Stat p w) = Inl e \<Longrightarrow> \<exists>n. e = PathError ''stat'' n"
  by (auto simp: os_Stat_def split: option.splits sum.splits)

lemma stat_fails:
  assumes "fst (os_Stat p w) = Inl e1" and "fst (os_Stat (p @ ext) w) = Inl e2"
  shows "fst (stat p w) = Inl (if IsNotExist e1 then e2 else e1)"
    and "is_not_found (if IsNotExist e1 then e2 else e1) \<longleftrightarrow> IsNotExist e1 \<and> IsNotExist e2"
    and "is_io_error (if IsNotExist e1 then e2 else e1)"
proof -
  show "fst (stat p w) = Inl (if IsNotExist e1 then e2 else e1)"
    using assms by (simp add: stat_eq)
  from os_Stat_error[OF assms(1)] os_Stat_error[OF assms(2)]
  obtain n1 n2 where "e1 = PathError ''stat'' n1" "e2 = PathError ''stat'' n2" by blast
  then show "is_not_found (if IsNotExist e1 then e2 else e1) \<longleftrightarrow> IsNotExist e1 \<and> IsNotExist e2"
    and "is_io_error (if IsNotExist e1 then e2 else e1)"
    by auto
qed

lemma os_ReadFile_same:
  "files w' = files w \<Longrightarrow> cwd w' = cwd w \<Longrightarrow> fst (os_ReadFile p w') = fst (os_ReadFile p w)"
  by (simp add: os_ReadFile_def resolve_def)

lemma os_ReadFile_error: "fst (os_ReadFile p w) = Inl e \<Longrightarrow> is_io_error e"
  by (auto simp: os_ReadFile_def split: option.splits sum.splits node.splits)

lemma os_ReadFile_pair: "os_ReadFile p w = (fst (os_ReadFile p w), logc (CReadFile p) w)"
  by (simp add: prod_eq_iff)

lemma read_files_all_read:
  "files w' = files w \<Longrightarrow> cwd w' = cwd w \<Longrightarrow>
   map (\<lambda>n. fst (os_ReadFile (Join [cdir, n]) w)) names = map Inr bs \<Longrightarrow>
   fst (read_files cdir names acc w') = (acc @ bs, None)"
proof (induction names arbitrary: acc w' bs)
  case Nil
  then show ?case by simp
next
  case (Cons n names)
  from Cons.prems(3) obtain b bs' where bs: "bs = b # bs'"
    and b: "fst (os_ReadFile (Join [cdir, n]) w) = Inr b"
    and rest: "map (\<lambda>n. fst (os_ReadFile (Join [cdir, n]) w)) names = map Inr bs'"
    by (cases bs) auto
  have b': "fst (os_ReadFile (Join [cdir, n]) w') = Inr b"
    using os_ReadFile_same[OF Cons.prems(1,2)] b by simp
  have "fst (read_files cdir names (acc @ [b]) (logc (CReadFile (Join [cdir, n])) w')) = ((acc @ [b]) @ bs', None)"
    using Cons.prems(1,2) by (intro Cons.IH[OF _ _ rest]) simp_all
  then show ?case
    using b' by (subst read_files.simps, subst os_ReadFile_pair) (simp add: bs)
qed

lemma read_files_one_fails:
  "files w' = files w \<Longrightarrow> cwd w' = cwd w \<Longrightarrow>
   \<exists>n\<in>set names. \<exists>e. fst (os_ReadFile (Join [cdir, n]) w) = Inl e \<Longrightarrow>
   \<exists>e. fst (read_files cdir names acc w') = ([], Some e) \<and> is_io_error e"
proof (induction names arbitrary: acc w')
  case Nil
  then show ?case by simp
next
  case (Cons n names)
  show ?case
  proof (cases "fst (os_ReadFile (Join [cdir, n]) w)")
    case (Inl e)
    then have "fst (os_ReadFile (Join [cdir, n]) w') = Inl e"
      using os_ReadFile_same[OF Cons.prems(1,2)] by simp
    moreover have "is_io_error e" using Inl by (rule os_ReadFile_error)
    ultimately show ?thesis
      by (subst read_files.simps, subst os_ReadFile_pair) simp
  next
    case (Inr b)
    then have b': "fst (os_ReadFile (Join [cdir, n]) w') = Inr b"
      using os_ReadFile_same[OF Cons.prems(1,2)] by simp
    from Cons.prems(3) Inr have "\<exists>n\<in>set names. \<exists>e. fst (os_ReadFile (Join [cdir, n]) w) = Inl e"
      by auto
    then have "\<exists>e. fst (read_files cdir names (acc @ [b]) (logc (CReadFile (Join [cdir, n])) w')) = ([], Some e) \<and> is_io_error e"
      using Cons.prems(1,2) by (intro Cons.IH) simp_all
    then show ?thesis
      using b' by (subst read_files.simps, subst os_ReadFile_pair) simp
  qed
qed

lemma os_Stat_Dir_ReadDir:
  "fst (os_Stat p w) = Inr ModeDir \<Longrightarrow> \<exists>names. fst (os_ReadDir p w) = Inr names"
  by (auto simp: os_Stat_def os_ReadDir_def mode_of_def split: option.splits sum.splits node.splits)

lemma os_ReadDir_pair: "os_ReadDir p w = (fst (os_ReadDir p w), logc (CReadDir p) w)"
  by (simp add: os_ReadDir_def)

lemma os_ReadDir_logc [simp]: "fst (os_ReadDir p (logc c w)) = fst (os_ReadDir p w)"
  by (simp add: os_ReadDir_def split: option.splits sum.splits node.splits)

lemma ReadAll_dir:
  assumes "collection \<noteq> []"
    and "fst (os_Stat (Join [dir d, collection]) w) = Inr ModeDir"
    and "fst (os_ReadDir (Join [dir d, collection]) w) = Inr names"
  shows "fst (ReadAll collection d w) =
     fst (read_files (Join [dir d, collection]) names []
            (logc (CReadDir (Join [dir d, collection])) (logc (CStat (Join [dir d, collection])) w)))"
  using assms
  by (simp add: ReadAll_def Let_def stat_eq, subst os_ReadDir_pair) simp

lemma node_at_update:
  "node_at (AList.update k v fs) k' = (if k' = [] then Some Dir else if k' = k then Some v else node_at fs k')"
  by (simp add: node_at_def update_conv')

lemma node_at_Nil [simp]: "node_at fs [] = Some Dir"
  by (simp add: node_at_def)

lemma resolve_same: "cwd w' = cwd w \<Longrightarrow> resolve w' p = resolve w p"
  by (simp add: resolve_def)

lemma mkdirs_nodes:
  "mkdirs fs pre xs = Inr fs' \<Longrightarrow>
   node_at fs' k = (case node_at fs k of Some n \<Rightarrow> Some n | None \<Rightarrow> node_at fs' k) \<and>
   (node_at fs' k = None \<or> node_at fs' k = Some Dir \<or> node_at fs' k = node_at fs k)"
proof (induction xs arbitrary: fs pre)
  case Nil
  then show ?case by (auto split: option.splits)
next
  case (Cons x xs)
  show ?case
  proof (cases "node_at fs (pre @ [x])")
    case None
    with Cons.prems have m: "mkdirs (AList.update (pre @ [x]) Dir fs) (pre @ [x]) xs = Inr fs'" by simp
    from Cons.IH[OF m] None show ?thesis
      by (auto simp: node_at_update split: option.splits if_splits)
  next
    case (Some n)
    with Cons.prems obtain "n = Dir" and m: "mkdirs fs (pre @ [x]) xs = Inr fs'"
      by (cases n) auto
    from Cons.IH[OF m] show ?thesis .
  qed
qed

lemma mkdirs_keeps: "mkdirs fs pre xs = Inr fs' \<Longrightarrow> node_at fs k = Some n \<Longrightarrow> node_at fs' k = Some n"
  using mkdirs_nodes[of fs pre xs fs' k] by simp

lemma mkdirs_no_new_file:
  "mkdirs fs pre xs = Inr fs' \<Longrightarrow> node_at fs' k = Some (File b) \<Longrightarrow> node_at fs k = Some (File b)"
  using mkdirs_nodes[of fs pre xs fs' k] by auto

lemma lookup_from_mono:
  "(\<And>k n. node_at fs k = Some n \<Longrightarrow> node_at fs' k = Some n) \<Longrightarrow>
   lookup_from fs pre xs = Inr n \<Longrightarrow> lookup_from fs' pre xs = Inr n"
proof (induction xs arbitrary: pre)
  case Nil
  then show ?case by (auto split: option.splits)
next
  case (Cons x xs)
  from Cons.prems(2) have d: "node_at fs pre = Some Dir" and l: "lookup_from fs (pre @ [x]) xs = Inr n"
    by (auto split: option.splits node.splits)
  from Cons.prems(1)[OF d] Cons.IH[OF Cons.prems(1) l] show ?case by simp
qed

lemma os_MkdirAll_cwd [simp]: "cwd (snd (os_MkdirAll p w)) = cwd w"
  by (simp add: os_MkdirAll_def Let_def split: option.splits sum.splits)

lemma os_MkdirAll_trace [simp]: "trace (snd (os_MkdirAll p w)) = trace w @ [CMkdirAll p]"
  by (simp add: os_MkdirAll_def Let_def split: option.splits sum.splits)

lemma os_MkdirAll_keeps:
  "node_at (files w) k = Some n \<Longrightarrow> node_at (files (snd (os_MkdirAll p w))) k = Some n"
  by (auto simp: os_MkdirAll_def Let_def split: option.splits sum.splits intro: mkdirs_keeps)

lemma os_MkdirAll_no_new_file:
  "node_at (files (snd (os_MkdirAll p w))) k = Some (File b) \<Longrightarrow> node_at (files w) k = Some (File b)"
  by (auto simp: os_MkdirAll_def Let_def split: option.splits sum.splits intro: mkdirs_no_new_file)

lemma os_MkdirAll_file_nodes:
  "node_at (files (snd (os_MkdirAll p w))) k = Some (File b) \<longleftrightarrow> node_at (files w) k = Some (File b)"
  using os_MkdirAll_keeps[of w k "File b" p] os_MkdirAll_no_new_file[of p w k b] by blast

lemma os_MkdirAll_error: "fst (os_MkdirAll p w) = Some e \<Longrightarrow> is_io_error e"
  by (auto simp: os_MkdirAll_def Let_def split: option.splits sum.splits)

lemma file_at_mono:
  assumes "\<And>k n. node_at (files w) k = Some n \<Longrightarrow> node_at (files w') k = Some n"
    and "cwd w' = cwd w" and "file_at w p = Some b"
  shows "file_at w' p = Some b"
proof -
  from assms(3) obtain k where k: "resolve w p = Some k" and l: "lookup (files w) k = Inr (File b)"
    by (auto simp: file_at_def os_ReadFile_def split: option.splits sum.splits node.splits)
  have "resolve w' p = Some k" using k resolve_same[OF assms(2)] by simp
  moreover have "lookup (files w') k = Inr (File b)"
    using l lookup_from_mono[of "files w" "files w'"] assms(1) by (simp add: lookup_def)
  ultimately show ?thesis by (simp add: file_at_def os_ReadFile_def)
qed

lemma file_at_logc [simp]: "file_at (logc c w) p = file_at w p"
  by (simp add: file_at_def)

lemma os_MkdirAll_file_at:
  "file_at w p = Some b \<Longrightarrow> file_at (snd (os_MkdirAll q w)) p = Some b"
  by (rule file_at_mono[where w=w]) (auto intro: os_MkdirAll_keeps)

lemma lookup_from_snoc:
  "lookup_from fs pre (xs @ [x]) =
     (case lookup_from fs pre xs of
        Inl e \<Rightarrow> Inl e
      | Inr (File _) \<Rightarrow> Inl ENOTDIR
      | Inr Dir \<Rightarrow> (case node_at fs (pre @ xs @ [x]) of None \<Rightarrow> Inl ENOENT | Some n \<Rightarrow> Inr n))"
  by (induction xs arbitrary: pre) (auto split: option.splits node.splits)

lemma lookup_found_node: "lookup fs k = Inr n \<Longrightarrow> node_at fs k = Some n"
proof (cases k rule: rev_cases)
  case Nil
  assume "lookup fs k = Inr n"
  then show ?thesis using Nil by (simp add: lookup_def)
next
  case (snoc xs x)
  assume "lookup fs k = Inr n"
  then show ?thesis
    using snoc by (auto simp: lookup_def lookup_from_snoc split: sum.splits node.splits option.splits)
qed

lemma lookup_free_name:
  "lookup fs k = Inl ENOENT \<Longrightarrow> lookup fs (butlast k) = Inr Dir \<Longrightarrow> node_at fs k = None"
proof (cases k rule: rev_cases)
  case Nil
  assume "lookup fs k = Inl ENOENT"
  then show ?thesis using Nil by (simp add: lookup_def)
next
  case (snoc xs x)
  assume "lookup fs k = Inl ENOENT" and "lookup fs (butlast k) = Inr Dir"
  then show ?thesis
    using snoc by (auto simp: lookup_def lookup_from_snoc split: option.splits)
qed

lemma lookup_from_update_other:
  "node_at fs kt \<noteq> Some Dir \<Longrightarrow> lookup_from fs pre xs = Inr n \<Longrightarrow> pre @ xs \<noteq> kt \<Longrightarrow>
   lookup_from (AList.update kt v fs) pre xs = Inr n"
proof (induction xs arbitrary: pre)
  case Nil
  then show ?case by (auto simp: node_at_update split: option.splits)
next
  case (Cons x xs)
  from Cons.prems(2) have d: "node_at fs pre = Some Dir" and l: "lookup_from fs (pre @ [x]) xs = Inr n"
    by (auto split: option.splits node.splits)
  from d Cons.prems(1) have "pre \<noteq> kt" by auto
  then have "node_at (AList.update kt v fs) pre = Some Dir"
    using d by (simp add: node_at_update)
  moreover have "lookup_from (AList.update kt v fs) (pre @ [x]) xs = Inr n"
    using Cons.prems(1,3) l by (intro Cons.IH) simp_all
  ultimately show ?case by simp
qed

lemma write_bytes_effect:
  "cwd (snd (write_bytes k b w)) = cwd w \<and> trace (snd (write_bytes k b w)) = trace w \<and>
   (\<exists>x. files (snd (write_bytes k b w)) = AList.update k (File x) (files w)) \<and>
   (fst (write_bytes k b w) = None \<or> fst (write_bytes k b w) = Some (PathError ''write'' ENOSPC))"
  by (auto simp: write_bytes_def)

lemma os_WriteFile_cwd [simp]: "cwd (snd (os_WriteFile p b w)) = cwd w"
  by (simp add: os_WriteFile_def Let_def write_bytes_effect
      split: option.splits sum.splits node.splits errno.splits)

lemma os_WriteFile_trace [simp]: "trace (snd (os_WriteFile p b w)) = trace w @ [CWriteFile p b]"
  by (simp add: os_WriteFile_def Let_def write_bytes_effect
      split: option.splits sum.splits node.splits errno.splits)

lemma os_WriteFile_error: "fst (os_WriteFile p b w) = Some e \<Longrightarrow> is_io_error e"
  using write_bytes_effect[of "the (resolve w p)" b "logc (CWriteFile p b) w"]
  by (auto simp: os_WriteFile_def Let_def split: option.splits sum.splits node.splits errno.splits)

lemma os_WriteFile_files:
  assumes "resolve w p = Some kt"
  shows "files (snd (os_WriteFile p b w)) = files w \<or>
     (node_at (files w) kt \<noteq> Some Dir \<and>
      (\<exists>x. files (snd (os_WriteFile p b w)) = AList.update kt (File x) (files w)))"
proof -
  let ?w' = "logc (CWriteFile p b) w"
  from write_bytes_effect[of kt b ?w'] obtain x where
    x: "files (snd (write_bytes kt b ?w')) = AList.update kt (File x) (files w)" by auto
  show ?thesis
  proof (cases "lookup (files w) kt")
    case (Inr n)
    then show ?thesis
      using assms x lookup_found_node[OF Inr]
      by (cases n) (auto simp: os_WriteFile_def Let_def)
  next
    case (Inl e)
    show ?thesis
    proof (cases "e = ENOENT \<and> lookup (files w) (butlast kt) = Inr Dir")
      case True
      then have "node_at (files w) kt = None" using Inl lookup_free_name by blast
      then show ?thesis
        using assms x Inl True by (auto simp: os_WriteFile_def Let_def)
    next
      case False
      then have "files (snd (os_WriteFile p b w)) = files w"
        using assms Inl
        by (auto simp: os_WriteFile_def Let_def split: sum.splits node.splits errno.splits)
      then show ?thesis by simp
    qed
  qed
qed

lemma os_WriteFile_keeps_other:
  assumes "file_at w q = Some c" and "resolve w q \<noteq> resolve w p"
  shows "file_at (snd (os_WriteFile p b w)) q = Some c"
proof -
  let ?w2 = "snd (os_WriteFile p b w)"
  from assms(1) obtain kq where kq: "resolve w q = Some kq" and l: "lookup (files w) kq = Inr (File c)"
    by (auto simp: file_at_def os_ReadFile_def split: option.splits sum.splits node.splits)
  have rq: "resolve ?w2 q = Some kq" using resolve_same[of ?w2 w q] kq by simp
  have "lookup (files ?w2) kq = Inr (File c)"
  proof (cases "resolve w p")
    case None
    then have "files ?w2 = files w" by (simp add: os_WriteFile_def Let_def)
    with l show ?thesis by simp
  next
    case (Some kt)
    with assms(2) kq have ne: "kq \<noteq> kt" by auto
    from os_WriteFile_files[OF Some, of b] show ?thesis
    proof
      assume "files ?w2 = files w"
      with l show ?thesis by simp
    next
      assume "node_at (files w) kt \<noteq> Some Dir \<and>
        (\<exists>x. files ?w2 = AList.update kt (File x) (files w))"
      then obtain x where nd: "node_at (files w) kt \<noteq> Some Dir"
        and f: "files ?w2 = AList.update kt (File x) (files w)" by blast
      show ?thesis
        using lookup_from_update_other[OF nd, of "[]" kq "File c" "File x"] l ne
        by (simp add: lookup_def f)
    qed
  qed
  with rq show ?thesis by (simp add: file_at_def os_ReadFile_def)
qed

lemma snd_getOrCreateMutex_dir [simp]: "dir (snd (getOrCreateMutex c d)) = dir d"
  by (simp add: getOrCreateMutex_def split: option.splits)

lemma Write_serialization_fails:
  assumes "collection \<noteq> []" "resource \<noteq> []" "marshal v = Inl e"
  shows "Write marshal collection resource v d w =
     ((case fst (os_MkdirAll (Join [dir d, collection]) w) of Some e' \<Rightarrow> Some e' | None \<Rightarrow> Some e),
      snd (getOrCreateMutex collection d), snd (os_MkdirAll (Join [dir d, collection]) w))"
  using assms
  by (cases "getOrCreateMutex collection d"; cases "os_MkdirAll (Join [dir d, collection]) w")
     (auto simp: Write_def Let_def split: option.splits)

lemma Write_temp_write_fails:
  assumes "collection \<noteq> []" "resource \<noteq> []"
    and "fst (os_MkdirAll (Join [dir d, collection]) w) = None"
    and "marshal v = Inr b"
    and "fst (os_WriteFile (Join [Join [dir d, collection], resource @ ext] @ ''.tmp'') (b @ [CHR 0x0A])
               (snd (os_MkdirAll (Join [dir d, collection]) w))) = Some e"
  shows "Write marshal collection resource v d w =
     (Some e, snd (getOrCreateMutex collection d),
      snd (os_WriteFile (Join [Join [dir d, collection], resource @ ext] @ ''.tmp'') (b @ [CHR 0x0A])
        (snd (os_MkdirAll (Join [dir d, collection]) w))))"
proof -
  let ?cdir = "Join [dir d, collection]"
  let ?tmp = "Join [?cdir, resource @ ext] @ ''.tmp''"
  obtain w1 where mk: "os_MkdirAll ?cdir w = (None, w1)" and w1: "w1 = snd (os_MkdirAll ?cdir w)"
    using assms(3) by (cases "os_MkdirAll ?cdir w") auto
  obtain w2 where wr: "os_WriteFile ?tmp (b @ [CHR 0x0A]) w1 = (Some e, w2)"
    and w2: "w2 = snd (os_WriteFile ?tmp (b @ [CHR 0x0A]) w1)"
    using assms(5) w1 by (cases "os_WriteFile ?tmp (b @ [CHR 0x0A]) w1") auto
  have "Write marshal collection resource v d w = (Some e, snd (getOrCreateMutex collection d), w2)"
    using assms(1,2,4) mk wr
    by (cases "getOrCreateMutex collection d") (simp add: Write_def Let_def)
  then show ?thesis unfolding w2 w1 .
qed

lemma files_stat [simp]: "files (snd (stat p w)) = files w"
  by (simp add: stat_eq split: sum.splits)

lemma cwd_stat [simp]: "cwd (snd (stat p w)) = cwd w"
  by (simp add: stat_eq split: sum.splits)

lemma trace_os_RemoveAll [simp]: "trace (snd (os_RemoveAll p w)) = trace w @ [CRemoveAll p]"
  by (simp add: os_RemoveAll_def Let_def split: option.splits sum.splits errno.splits)



lemma Delete_eq:
  "Delete collection resource d w =
     (case fst (stat (Join [dir d, Join [collection, resource]]) w) of
        Inl _ \<Rightarrow>
          (Some (NotFound (''Unable to find file or directory named '' @ Join [collection, resource] @ [CHR 0x0A])),
           snd (getOrCreateMutex collection d), snd (stat (Join [dir d, Join [collection, resource]]) w))
      | Inr ModeDir \<Rightarrow>
          (fst (os_RemoveAll (Join [dir d, Join [collection, resource]]) (snd (stat (Join [dir d, Join [collection, resource]]) w))),
           snd (getOrCreateMutex collection d),
           snd (os_RemoveAll (Join [dir d, Join [collection, resource]]) (snd (stat (Join [dir d, Join [collection, resource]]) w))))
      | Inr ModeRegular \<Rightarrow>
          (fst (os_Remove (Join [dir d, Join [collection, resource]] @ ext) (snd (stat (Join [dir d, Join [collection, resource]]) w))),
           snd (getOrCreateMutex collection d),
           snd (os_Remove (Join [dir d, Join [collection, resource]] @ ext) (snd (stat (Join [dir d, Join [collection, resource]]) w))))
      | Inr ModeIrregular \<Rightarrow>
          (None, snd (getOrCreateMutex collection d), snd (stat (Join [dir d, Join [collection, resource]]) w)))"
  by (cases "getOrCreateMutex collection d"; cases "stat (Join [dir d, Join [collection, resource]]) w")
     (simp add: Delete_def Let_def split: sum.splits file_mode.splits prod.splits)

lemma map_of_filter_not_under:
  "map_of (filter (\<lambda>(k', n). \<not> is_under k k') fs) k' = (if is_under k k' then None else map_of fs k')"
  by (induction fs) auto

lemma os_Stat_ok_resolve:
  "fst (os_Stat p w) = Inr m \<Longrightarrow> \<exists>k n. p \<noteq> [] \<and> resolve w p = Some k \<and> lookup (files w) k = Inr n \<and> m = mode_of n"
  by (auto simp: os_Stat_def resolve_def split: option.splits sum.splits if_splits)

lemma os_RemoveAll_existing:
  assumes "fst (os_Stat p w) = Inr m" and "\<not> endsWithDot p" and "resolve w p = Some k"
  shows "fst (os_RemoveAll p w) = None \<and>
     map_of (files (snd (os_RemoveAll p w))) k' = (if is_under k k' then None else map_of (files w) k')"
proof -
  from os_Stat_ok_resolve[OF assms(1)] assms(3) obtain n where
    "p \<noteq> []" "lookup (files w) k = Inr n" by auto
  then show ?thesis
    using assms(2,3) by (simp add: os_RemoveAll_def Let_def map_of_filter_not_under)
qed




section \<open>Facts about paths\<close>

lemma split_sep_not_Nil [simp]: "split_sep s \<noteq> []"
  by (induction s) (auto split: list.splits)

lemma split_sep_append: "split_sep (a @ CHR ''/'' # b) = split_sep a @ split_sep b"
proof (induction a)
  case Nil
  then show ?case by simp
next
  case (Cons x a)
  obtain y ys where s: "split_sep a = y # ys"
    by (cases "split_sep a") simp_all
  show ?case using Cons s by simp
qed

lemma join_sep_split_sep: "join_sep (split_sep s) = s"
proof (induction s)
  case Nil
  then show ?case by simp
next
  case (Cons x s)
  obtain y ys where s: "split_sep s = y # ys"
    by (cases "split_sep s") simp_all
  show ?case
  proof (cases "x = CHR ''/''")
    case True
    then show ?thesis using Cons s by simp
  next
    case False
    then show ?thesis using Cons s by (cases ys) simp_all
  qed
qed

lemma split_sep_no_sep: "x \<in> set (split_sep s) \<Longrightarrow> CHR ''/'' \<notin> set x"
proof (induction s arbitrary: x)
  case Nil
  then show ?case by simp
next
  case (Cons c s)
  obtain y ys where s: "split_sep s = y # ys"
    by (cases "split_sep s") simp_all
  show ?case
  proof (cases "c = CHR ''/''")
    case True
    then show ?thesis using Cons by auto
  next
    case False
    then show ?thesis using Cons.prems Cons.IH[of y] Cons.IH[of x] s by auto
  qed
qed

lemma hd_split_sep_rooted: "s \<noteq> [] \<Longrightarrow> hd s = CHR ''/'' \<Longrightarrow> hd (split_sep s) = []"
  by (cases s) auto

lemma foldl_clean_plain:
  "list_all plain_elem xs \<Longrightarrow> foldl (clean_elem r) out xs = rev xs @ out"
  by (induction xs arbitrary: out) (auto simp: clean_elem_def plain_elem_def)

lemma plain_path_not_rooted: "plain_path c \<Longrightarrow> c \<noteq> [] \<and> hd c \<noteq> CHR ''/''"
proof -
  assume p: "plain_path c"
  obtain y ys where s: "split_sep c = y # ys"
    by (cases "split_sep c") simp_all
  with p have y: "y \<noteq> []" by (simp add: plain_path_def plain_elem_def)
  have "c \<noteq> []" using s y by auto
  moreover have "hd c \<noteq> CHR ''/''"
    using hd_split_sep_rooted[of c] s y \<open>c \<noteq> []\<close> by auto
  ultimately show ?thesis by simp
qed

lemma Clean_plain_path_slash: "plain_path c \<Longrightarrow> Clean (c @ ''/'') = c"
proof -
  assume p: "plain_path c"
  from plain_path_not_rooted[OF p] have ne: "c \<noteq> []" and nr: "hd c \<noteq> CHR ''/''" by simp_all
  have sp: "split_sep (c @ ''/'') = split_sep c @ [[]]"
    using split_sep_append[of c "[]"] by simp
  have "foldl (clean_elem False) [] (split_sep c @ [[]]) = rev (split_sep c)"
    using p by (simp add: foldl_clean_plain plain_path_def clean_elem_def)
  then show ?thesis
    using ne nr by (simp add: Clean_def Let_def sp join_sep_split_sep)
qed

lemma Join_plain_path_empty: "plain_path c \<Longrightarrow> Join [c, []] = c"
  using plain_path_not_rooted[of c] Clean_plain_path_slash[of c]
  by (simp add: Join_def)

lemma join_sep_snoc:
  "zs \<noteq> [] \<Longrightarrow> join_sep (zs @ [z]) = join_sep zs @ CHR ''/'' # z"
  by (induction zs rule: join_sep.induct) simp_all

lemma not_endsWithDot_plain:
  assumes "plain_elem z" and "CHR ''/'' \<notin> set z"
  shows "\<not> endsWithDot z" and "\<not> endsWithDot (s @ CHR ''/'' # z)"
proof -
  have "drop (length z - 2) z \<noteq> ''/.''"
  proof
    assume "drop (length z - 2) z = ''/.''"
    then have "CHR ''/'' \<in> set (drop (length z - 2) z)" by simp
    then have "CHR ''/'' \<in> set z" by (rule in_set_dropD)
    with assms(2) show False by simp
  qed
  then show "\<not> endsWithDot z"
    using assms(1) by (simp add: endsWithDot_def plain_elem_def)
  show "\<not> endsWithDot (s @ CHR ''/'' # z)"
  proof (cases z)
    case Nil
    then show ?thesis using assms(1) by (simp add: plain_elem_def)
  next
    case (Cons a z')
    show ?thesis
    proof (cases z')
      case Nil
      then show ?thesis using Cons assms(1) by (simp add: endsWithDot_def plain_elem_def)
    next
      case (Cons b z'')
      have "drop (length (s @ CHR ''/'' # z) - 2) (s @ CHR ''/'' # z) = drop (length z'') z"
        using \<open>z = a # z'\<close> Cons by simp
      moreover have "drop (length z'') z \<noteq> ''/.''"
      proof
        assume "drop (length z'') z = ''/.''"
        then have "CHR ''/'' \<in> set (drop (length z'') z)" by simp
        then have "CHR ''/'' \<in> set z" by (rule in_set_dropD)
        with assms(2) show False by simp
      qed
      moreover have "s @ CHR ''/'' # z \<noteq> ''.''"
        using \<open>z = a # z'\<close> by (cases s) simp_all
      ultimately show ?thesis by (simp add: endsWithDot_def)
    qed
  qed
qed

lemma not_endsWithDot_join_sep:
  assumes "plain_elem z" and "CHR ''/'' \<notin> set z"
  shows "\<not> endsWithDot (join_sep (ys @ [z]))" and "\<not> endsWithDot (CHR ''/'' # join_sep (ys @ [z]))"
proof -
  show "\<not> endsWithDot (join_sep (ys @ [z]))"
    using not_endsWithDot_plain[OF assms] by (cases "ys = []") (simp_all add: join_sep_snoc)
  show "\<not> endsWithDot (CHR ''/'' # join_sep (ys @ [z]))"
  proof (cases "ys = []")
    case True
    then show ?thesis using not_endsWithDot_plain(2)[OF assms, of "[]"] by simp
  next
    case False
    then show ?thesis
      using not_endsWithDot_plain(2)[OF assms, of "CHR ''/'' # join_sep ys"] by (simp add: join_sep_snoc)
  qed
qed

lemma Clean_ends_plain:
  assumes "list_all plain_elem xs" and "xs \<noteq> []" and "split_sep s = es @ xs" and "s \<noteq> []"
  shows "\<not> endsWithDot (Clean s)"
proof -
  define r where "r = (hd s = CHR ''/'')"
  define out0 where "out0 = foldl (clean_elem r) [] es"
  have f: "foldl (clean_elem r) [] (split_sep s) = rev xs @ out0"
    using assms(1) by (simp add: assms(3) foldl_clean_plain out0_def)
  obtain xs' z where xs: "xs = xs' @ [z]"
    using assms(2) by (cases xs rule: rev_cases) simp_all
  have z: "plain_elem z" using assms(1) xs by simp
  have "z \<in> set (split_sep s)" using assms(3) xs by simp
  then have nz: "CHR ''/'' \<notin> set z" by (rule split_sep_no_sep)
  have out: "rev (foldl (clean_elem r) [] (split_sep s)) = (rev out0 @ xs') @ [z]"
    by (simp add: f xs)
  show ?thesis
    using not_endsWithDot_join_sep[OF z nz, of "rev out0 @ xs'"] assms(4)
    unfolding Clean_def Let_def r_def[symmetric] out by simp
qed

lemma Join_plain_path_not_dot:
  assumes "plain_path c"
  shows "\<not> endsWithDot (Join [root, c])"
proof -
  from plain_path_not_rooted[OF assms] have ne: "c \<noteq> []" by simp
  have pl: "list_all plain_elem (split_sep c)" using assms by (simp add: plain_path_def)
  show ?thesis
  proof (cases "root = []")
    case True
    then have "Join [root, c] = Clean c" using ne by (simp add: Join_def)
    moreover have "\<not> endsWithDot (Clean c)"
      by (rule Clean_ends_plain[OF pl _ _ ne, of "[]"]) simp_all
    ultimately show ?thesis by simp
  next
    case False
    then have "Join [root, c] = Clean (root @ CHR ''/'' # c)" by (simp add: Join_def)
    moreover have "\<not> endsWithDot (Clean (root @ CHR ''/'' # c))"
      by (rule Clean_ends_plain[OF pl _ split_sep_append]) simp_all
    ultimately show ?thesis by simp
  qed
qed

lemma split_sep_plain: "CHR ''/'' \<notin> set e \<Longrightarrow> split_sep e = [e]"
  by (induction e) auto

lemma split_sep_append_plain:
  "CHR ''/'' \<notin> set t \<Longrightarrow> split_sep (s @ t) = butlast (split_sep s) @ [last (split_sep s) @ t]"
proof (induction s)
  case Nil
  then show ?case by (simp add: split_sep_plain)
next
  case (Cons x s)
  obtain y ys where s: "split_sep s = y # ys"
    by (cases "split_sep s") simp_all
  obtain z zs where st: "split_sep (s @ t) = z # zs"
    by (cases "split_sep (s @ t)") simp_all
  from Cons s st have eq: "z # zs = butlast (y # ys) @ [last (y # ys) @ t]" by simp
  show ?case
  proof (cases "x = CHR ''/''")
    case True
    then show ?thesis using s st eq by simp
  next
    case False
    then show ?thesis using s st eq by (cases ys) auto
  qed
qed

lemma Clean_shape_plain:
  assumes "split_sep s = es @ [e]" and "plain_elem e" and "s \<noteq> []"
  shows "Clean s = e \<or> (\<exists>a. Clean s = a @ CHR ''/'' # e)"
proof -
  define r where "r = (hd s = CHR ''/'')"
  define ys where "ys = rev (foldl (clean_elem r) [] es)"
  have "foldl (clean_elem r) [] (split_sep s) = e # foldl (clean_elem r) [] es"
    using assms(2) by (simp add: assms(1) clean_elem_def plain_elem_def)
  then have out: "rev (foldl (clean_elem r) [] (split_sep s)) = ys @ [e]"
    by (simp add: ys_def)
  have c: "Clean s = (if r then CHR ''/'' # join_sep (ys @ [e]) else join_sep (ys @ [e]))"
    using assms(3) unfolding Clean_def Let_def r_def[symmetric] out by simp
  show ?thesis
  proof (cases "ys = []")
    case True
    then have "Clean s = e \<or> Clean s = [] @ CHR ''/'' # e" using c by simp
    then show ?thesis by blast
  next
    case False
    then have "Clean s = join_sep ys @ CHR ''/'' # e \<or> Clean s = (CHR ''/'' # join_sep ys) @ CHR ''/'' # e"
      using c by (simp add: join_sep_snoc)
    then show ?thesis by blast
  qed
qed

lemma Clean_last_plain:
  assumes "split_sep s = es @ [e]" and "plain_elem e" and "s \<noteq> []"
  shows "last (split_sep (Clean s)) = e"
proof -
  have "e \<in> set (split_sep s)" using assms(1) by simp
  then have ne: "CHR ''/'' \<notin> set e" by (rule split_sep_no_sep)
  from Clean_shape_plain[OF assms] show ?thesis
  proof
    assume "Clean s = e"
    then show ?thesis using ne by (simp add: split_sep_plain)
  next
    assume "\<exists>a. Clean s = a @ CHR ''/'' # e"
    then obtain a where "Clean s = a @ CHR ''/'' # e" by blast
    then show ?thesis using ne by (simp add: split_sep_append split_sep_plain)
  qed
qed

lemma Join_last_plain:
  assumes "x \<noteq> []" and "last (split_sep x) = e" and "plain_elem e"
  shows "Join [root, x] \<noteq> [] \<and> last (split_sep (Join [root, x])) = e"
proof -
  have sx: "split_sep x = butlast (split_sep x) @ [e]"
    using assms(2) append_butlast_last_id[of "split_sep x"] by simp
  have ne: "Clean s \<noteq> []" if "split_sep s = es @ [e]" "s \<noteq> []" for s es
    using Clean_shape_plain[OF that(1) assms(3) that(2)] assms(3) by (auto simp: plain_elem_def)
  show ?thesis
  proof (cases "root = []")
    case True
    then have j: "Join [root, x] = Clean x" using assms(1) by (simp add: Join_def)
    show ?thesis
      unfolding j using Clean_last_plain[OF sx assms(3,1)] ne[OF sx assms(1)] by simp
  next
    case False
    then have j: "Join [root, x] = Clean (root @ CHR ''/'' # x)" by (simp add: Join_def)
    have sp: "split_sep (root @ CHR ''/'' # x) = (split_sep root @ butlast (split_sep x)) @ [e]"
      using sx by (simp add: split_sep_append)
    show ?thesis
      unfolding j using Clean_last_plain[OF sp assms(3)] ne[OF sp] by simp
  qed
qed

lemma resource_file_elem:
  "last (split_sep (r @ ext)) = last (split_sep r) @ ext \<and> plain_elem (last (split_sep r) @ ext)"
proof -
  have "CHR ''/'' \<notin> set ext" by (simp add: ext_def)
  then have "last (split_sep (r @ ext)) = last (split_sep r) @ ext"
    by (simp add: split_sep_append_plain)
  moreover have "length (last (split_sep r) @ ext) \<ge> 5" by (simp add: ext_def)
  then have "plain_elem (last (split_sep r) @ ext)"
    unfolding plain_elem_def by (cases "last (split_sep r) @ ext = []"; cases "last (split_sep r) @ ext = ''.''";
        cases "last (split_sep r) @ ext = ''..''") simp_all
  ultimately show ?thesis by simp
qed

lemma resolve_suffix_differs:
  assumes "s \<noteq> []" and "last (split_sep s) = e" and "plain_elem e"
    and "CHR ''/'' \<notin> set t" and "t \<noteq> []"
  shows "resolve w (s @ t) \<noteq> resolve w s"
proof -
  define st0 where "st0 = (if hd s = CHR ''/'' then [] else rev (cwd w))"
  define st where "st = foldl walk_elem st0 (butlast (split_sep s))"
  have sx: "split_sep s = butlast (split_sep s) @ [e]"
    using assms(2) append_butlast_last_id[of "split_sep s"] by simp
  have sxt: "split_sep (s @ t) = butlast (split_sep s) @ [e @ t]"
    using assms(2,4) by (simp add: split_sep_append_plain)
  have e1: "walk_elem st e = e # st"
    using assms(3) by (simp add: walk_elem_def plain_elem_def)
  have "e @ t \<noteq> ''.''" "e @ t \<noteq> ''..''" "e @ t \<noteq> []"
    using assms(3,5) by (auto simp: plain_elem_def append_eq_Cons_conv)
  then have e2: "walk_elem st (e @ t) = (e @ t) # st"
    by (simp add: walk_elem_def)
  have "foldl walk_elem st0 (split_sep s) = e # st"
    by (subst sx) (simp add: st_def[symmetric] e1)
  then have r1: "resolve w s = Some (rev st @ [e])"
    using assms(1) by (simp add: resolve_def st0_def[symmetric])
  have r2: "resolve w (s @ t) = Some (rev st @ [e @ t])"
    using assms(1) by (simp add: resolve_def st0_def[symmetric] sxt st_def[symmetric] e2)
  show ?thesis using r1 r2 assms(5) by simp
qed

lemma temp_path_differs:
  "resolve w (Join [cdir, resource @ ext] @ ''.tmp'') \<noteq> resolve w (Join [cdir, resource @ ext])"
proof -
  have x: "resource @ ext \<noteq> []" by (simp add: ext_def)
  note el = resource_file_elem[of resource]
  from Join_last_plain[OF x conjunct1[OF el] conjunct2[OF el], of cdir]
  have "Join [cdir, resource @ ext] \<noteq> []"
    and "last (split_sep (Join [cdir, resource @ ext])) = last (split_sep resource) @ ext"
    by simp_all
  then show ?thesis
    by (rule resolve_suffix_differs[OF _ _ conjunct2[OF el]]) simp_all
qed

section \<open>Facts about the registry\<close>

lemma getOrCreateMutex_grows: "mutexes d \<subseteq>\<^sub>m mutexes (snd (getOrCreateMutex c d))"
  by (auto simp: getOrCreateMutex_def map_le_def split: option.splits)

lemma getOrCreateMutex_registered:
  "mutexes (snd (getOrCreateMutex c d)) c = Some (fst (getOrCreateMutex c d))"
  by (simp add: getOrCreateMutex_def split: option.splits)

lemma getOrCreateMutex_known: "mutexes d c = Some l \<Longrightarrow> getOrCreateMutex c d = (l, d)"
  by (simp add: getOrCreateMutex_def)

lemma Write_driver:
  "fst (snd (Write marshal c r v d w)) = (if c = [] \<or> r = [] then d else snd (getOrCreateMutex c d))"
  by (cases "getOrCreateMutex c d")
     (simp add: Write_def Let_def split: prod.splits option.splits sum.splits)

lemma Delete_driver: "fst (snd (Delete c r d w)) = snd (getOrCreateMutex c d)"
  by (simp add: Delete_eq split: sum.splits file_mode.splits)

lemma step_grows: "mutexes d \<subseteq>\<^sub>m mutexes (fst (step marshal unmarshal (d, w) x))"
  by (cases x) (simp_all add: Write_driver Delete_driver getOrCreateMutex_grows)

lemma run_grows: "mutexes (fst s) \<subseteq>\<^sub>m mutexes (fst (run marshal unmarshal ops s))"
proof (induction ops arbitrary: s)
  case Nil
  then show ?case by (simp add: run_def)
next
  case (Cons x ops)
  obtain d w where s: "s = (d, w)" by (cases s)
  have "mutexes (fst s) \<subseteq>\<^sub>m mutexes (fst (step marshal unmarshal s x))"
    unfolding s by (simp add: step_grows)
  also have "\<dots> \<subseteq>\<^sub>m mutexes (fst (run marshal unmarshal ops (step marshal unmarshal s x)))"
    by (rule Cons.IH)
  finally show ?case by (simp add: run_def)
qed

section \<open>Write and Read\<close>

text \<open>
  C1. A successful \<^verbatim>\<open>Write(c, r, v)\<close> followed by \<^verbatim>\<open>Read(c, r)\<close> should return \<open>v\<close>. In a
  fresh store \<^verbatim>\<open>Write("users", "a", v)\<close> succeeds and leaves \<^verbatim>\<open>users/a.json\<close>, but the
  \<^verbatim>\<open>Read("users", "a")\<close> after it opens \<^verbatim>\<open>users/a.json.json\<close> and fails with ENOENT.
\<close>

theorem Write_then_Read_not_exist:
  "(case Write marshal_str ''users'' ''a'' ''{}'' store0 empty_world of
      (e, d, w) \<Rightarrow>
        e = None \<and>
        lookup (files w) [''users'', ''a.json''] = Inr (File (''{}'' @ [CHR 0x0A])) \<and>
        fst (Read unmarshal_str ''users'' ''a'' d w) = Inl (PathError ''open'' ENOENT))"
  by code_simp

text \<open>
  C3. \<^verbatim>\<open>Write\<close> with an empty collection or an empty resource returns the InvalidArgument
  error and leaves the driver and the world as they were: no lock is created, no call
  to the file system is made (the trace is part of the world) and no file changes.
\<close>

theorem Write_empty_name_InvalidArgument:
  "(\<exists>msg. Write marshal [] r v d w = (Some (InvalidArgument msg), d, w)) \<and>
   (\<exists>msg. Write marshal c [] v d w = (Some (InvalidArgument msg), d, w))"
  by (simp add: Write_def)

theorem Write_empty_name_InvalidArgument_witness:
  "(\<exists>msg. Write marshal_str [] ''r'' ''{}'' store0 empty_world = (Some (InvalidArgument msg), store0, empty_world)) \<and>
   (\<exists>msg. Write marshal_str ''c'' [] ''{}'' store0 empty_world = (Some (InvalidArgument msg), store0, empty_world))"
  using Write_empty_name_InvalidArgument [of marshal_str "''r''" "''{}''" store0 empty_world "''c''"]
  by simp

section \<open>Read and ReadAll\<close>

text \<open>
  C8, as the code has it. For a non-empty collection and resource, when \<^verbatim>\<open>os.Stat\<close> fails
  on the path \<^verbatim>\<open>root/c/r.json\<close> and on that path with \<^verbatim>\<open>.json\<close> appended again, \<^verbatim>\<open>Read\<close> fails
  with the error of its existence check: the error of the second \<^verbatim>\<open>os.Stat\<close> when the
  first reports that the path does not exist, and the error of the first otherwise.
  That error is of kind NotFound exactly when \<^verbatim>\<open>os.Stat\<close> reports for both paths that they
  do not exist (ENOENT); otherwise it is another error of package os, such as
  ENOTDIR where a name on the way to the paths is a regular file.
\<close>

theorem Read_missing_returns_stat_error:
  assumes "collection \<noteq> []" and "resource \<noteq> []"
    and "fst (os_Stat (Join [dir d, collection, resource @ ext]) w) = Inl e1"
    and "fst (os_Stat (Join [dir d, collection, resource @ ext] @ ext) w) = Inl e2"
  shows "fst (Read unmarshal collection resource d w) = Inl (if IsNotExist e1 then e2 else e1) \<and>
     (is_not_found (if IsNotExist e1 then e2 else e1) \<longleftrightarrow> IsNotExist e1 \<and> IsNotExist e2) \<and>
     is_io_error (if IsNotExist e1 then e2 else e1)"
proof -
  let ?p = "Join [dir d, collection, resource @ ext]"
  note s = stat_fails[OF assms(3,4)]
  have "fst (Read unmarshal collection resource d w) = Inl (if IsNotExist e1 then e2 else e1)"
    using assms(1,2) s(1) by (cases "stat ?p w") (simp add: Read_def Let_def)
  with s(2,3) show ?thesis by blast
qed

theorem Read_missing_returns_stat_error_witness:
  "fst (os_Stat (Join [dir store0, ''users'', ''a'' @ ext]) empty_world) = Inl (PathError ''stat'' ENOENT) \<and>
   fst (os_Stat (Join [dir store0, ''users'', ''a'' @ ext] @ ext) empty_world) = Inl (PathError ''stat'' ENOENT) \<and>
   fst (Read unmarshal_str ''users'' ''a'' store0 empty_world) = Inl (PathError ''stat'' ENOENT) \<and>
   is_not_found (PathError ''stat'' ENOENT) \<and>
   fst (os_Stat (Join [dir store0, ''users.json'', ''a'' @ ext]) world_users_json) = Inl (PathError ''stat'' ENOTDIR) \<and>
   fst (os_Stat (Join [dir store0, ''users.json'', ''a'' @ ext] @ ext) world_users_json) = Inl (PathError ''stat'' ENOTDIR) \<and>
   fst (Read unmarshal_str ''users.json'' ''a'' store0 world_users_json) = Inl (PathError ''stat'' ENOTDIR) \<and>
   is_io_error (PathError ''stat'' ENOTDIR)"
proof -
  have h1: "''users'' \<noteq> []" and h2: "''a'' \<noteq> []" and h1': "''users.json'' \<noteq> []" by simp_all
  have a3: "fst (os_Stat (Join [dir store0, ''users'', ''a'' @ ext]) empty_world) = Inl (PathError ''stat'' ENOENT)"
    by code_simp
  have a4: "fst (os_Stat (Join [dir store0, ''users'', ''a'' @ ext] @ ext) empty_world) = Inl (PathError ''stat'' ENOENT)"
    by code_simp
  have b3: "fst (os_Stat (Join [dir store0, ''users.json'', ''a'' @ ext]) world_users_json) = Inl (PathError ''stat'' ENOTDIR)"
    by code_simp
  have b4: "fst (os_Stat (Join [dir store0, ''users.json'', ''a'' @ ext] @ ext) world_users_json) = Inl (PathError ''stat'' ENOTDIR)"
    by code_simp
  note ta = Read_missing_returns_stat_error[OF h1 h2 a3 a4, of unmarshal_str]
  note tb = Read_missing_returns_stat_error[OF h1' h2 b3 b4, of unmarshal_str]
  from ta have ra: "fst (Read unmarshal_str ''users'' ''a'' store0 empty_world) = Inl (PathError ''stat'' ENOENT)"
    by simp
  from ta have na: "is_not_found (PathError ''stat'' ENOENT)" by simp
  from tb have rb: "fst (Read unmarshal_str ''users.json'' ''a'' store0 world_users_json) = Inl (PathError ''stat'' ENOTDIR)"
    by simp
  from tb have nb: "is_io_error (PathError ''stat'' ENOTDIR)" by simp
  from a3 a4 ra na b3 b4 rb nb show ?thesis by (intro conjI)
qed

text \<open>
  C8, as stated, fails where a name on the way is a regular file: with a regular file
  \<^verbatim>\<open>users.json\<close> in the root, neither \<^verbatim>\<open>users.json/a.json\<close> nor \<^verbatim>\<open>users.json/a.json.json\<close>
  exists, and \<^verbatim>\<open>Read("users.json", "a")\<close> fails with ENOTDIR, which \<^verbatim>\<open>os.IsNotExist\<close> does not
  accept, and not with NotFound.
\<close>

theorem Read_below_regular_file_not_NotFound:
  "fst (os_Stat (Join [dir store0, ''users.json'', ''a'' @ ext]) world_users_json) = Inl (PathError ''stat'' ENOTDIR) \<and>
   fst (os_Stat (Join [dir store0, ''users.json'', ''a'' @ ext] @ ext) world_users_json) = Inl (PathError ''stat'' ENOTDIR) \<and>
   fst (Read unmarshal_str ''users.json'' ''a'' store0 world_users_json) = Inl (PathError ''stat'' ENOTDIR) \<and>
   \<not> is_not_found (PathError ''stat'' ENOTDIR)"
  by code_simp

text \<open>
  C6. For a non-empty collection whose directory exists, \<^verbatim>\<open>ReadAll\<close> lists the directory;
  when every listed file can be read, it returns the contents in the order of the
  listing and no error; when the read of some listed file fails, it returns an
  I/O error and the empty sequence.
\<close>

theorem ReadAll_all_or_nothing:
  assumes "collection \<noteq> []"
    and "fst (os_Stat (Join [dir d, collection]) w) = Inr ModeDir"
  shows "\<exists>names. fst (os_ReadDir (Join [dir d, collection]) w) = Inr names \<and>
     (\<forall>bs. map (\<lambda>n. fst (os_ReadFile (Join [Join [dir d, collection], n]) w)) names = map Inr bs
        \<longrightarrow> fst (ReadAll collection d w) = (bs, None)) \<and>
     ((\<exists>n\<in>set names. \<exists>e. fst (os_ReadFile (Join [Join [dir d, collection], n]) w) = Inl e)
        \<longrightarrow> (\<exists>e. fst (ReadAll collection d w) = ([], Some e) \<and> is_io_error e))"
proof -
  let ?cdir = "Join [dir d, collection]"
  let ?w' = "logc (CReadDir ?cdir) (logc (CStat ?cdir) w)"
  from os_Stat_Dir_ReadDir[OF assms(2)] obtain names where
    names: "fst (os_ReadDir ?cdir w) = Inr names" by blast
  have same: "files ?w' = files w" "cwd ?w' = cwd w" by simp_all
  have eq: "fst (ReadAll collection d w) = fst (read_files ?cdir names [] ?w')"
    by (rule ReadAll_dir[OF assms names])
  have ok: "\<forall>bs. map (\<lambda>n. fst (os_ReadFile (Join [?cdir, n]) w)) names = map Inr bs
        \<longrightarrow> fst (ReadAll collection d w) = (bs, None)"
    using read_files_all_read[OF same, where acc="[]"] eq by simp
  have bad: "(\<exists>n\<in>set names. \<exists>e. fst (os_ReadFile (Join [?cdir, n]) w) = Inl e)
        \<longrightarrow> (\<exists>e. fst (ReadAll collection d w) = ([], Some e) \<and> is_io_error e)"
    using read_files_one_fails[OF same, where acc="[]"] eq by simp
  from names ok bad show ?thesis by blast
qed

theorem ReadAll_all_or_nothing_witness:
  "fst (os_Stat (Join [dir store0, ''users'']) world_two_users) = Inr ModeDir \<and>
   (\<exists>names. fst (os_ReadDir (Join [dir store0, ''users'']) world_two_users) = Inr names \<and>
     (\<forall>bs. map (\<lambda>n. fst (os_ReadFile (Join [Join [dir store0, ''users''], n]) world_two_users)) names = map Inr bs
        \<longrightarrow> fst (ReadAll ''users'' store0 world_two_users) = (bs, None)) \<and>
     ((\<exists>n\<in>set names. \<exists>e. fst (os_ReadFile (Join [Join [dir store0, ''users''], n]) world_two_users) = Inl e)
        \<longrightarrow> (\<exists>e. fst (ReadAll ''users'' store0 world_two_users) = ([], Some e) \<and> is_io_error e))) \<and>
   fst (os_ReadDir (Join [dir store0, ''users'']) world_two_users) = Inr [''a.json'', ''b.json''] \<and>
   fst (ReadAll ''users'' store0 world_two_users) = ([''A'', ''B''], None) \<and>
   fst (os_Stat (Join [dir store0, ''users'']) world_subdir) = Inr ModeDir \<and>
   fst (os_ReadFile (Join [Join [dir store0, ''users''], ''sub'']) world_subdir) = Inl (PathError ''read'' EISDIR) \<and>
   fst (ReadAll ''users'' store0 world_subdir) = ([], Some (PathError ''read'' EISDIR))"
proof -
  have h1: "''users'' \<noteq> []" by simp
  have h2: "fst (os_Stat (Join [dir store0, ''users'']) world_two_users) = Inr ModeDir" by code_simp
  have v1: "fst (os_ReadDir (Join [dir store0, ''users'']) world_two_users) = Inr [''a.json'', ''b.json'']"
    by code_simp
  have v2: "fst (ReadAll ''users'' store0 world_two_users) = ([''A'', ''B''], None)" by code_simp
  have v3: "fst (os_Stat (Join [dir store0, ''users'']) world_subdir) = Inr ModeDir" by code_simp
  have v4: "fst (os_ReadFile (Join [Join [dir store0, ''users''], ''sub'']) world_subdir) = Inl (PathError ''read'' EISDIR)"
    by code_simp
  have v5: "fst (ReadAll ''users'' store0 world_subdir) = ([], Some (PathError ''read'' EISDIR))" by code_simp
  from ReadAll_all_or_nothing[OF h1 h2] h2 v1 v2 v3 v4 v5
  show ?thesis by (intro conjI)
qed

text \<open>
  C7, as the code has it. For a non-empty collection, when \<^verbatim>\<open>os.Stat\<close> fails on the path
  \<^verbatim>\<open>root/c\<close> and on the path \<^verbatim>\<open>root/c.json\<close>, \<^verbatim>\<open>ReadAll\<close> returns the empty sequence and the
  error of its existence check: the error of the second \<^verbatim>\<open>os.Stat\<close> when the first
  reports that the path does not exist, and the error of the first otherwise. That
  error is of kind NotFound exactly when \<^verbatim>\<open>os.Stat\<close> reports for both paths that they do
  not exist (ENOENT); otherwise it is another error of package os, such as ENOTDIR
  where a name on the way to the paths is a regular file.
\<close>

theorem ReadAll_missing_returns_stat_error:
  assumes "collection \<noteq> []"
    and "fst (os_Stat (Join [dir d, collection]) w) = Inl e1"
    and "fst (os_Stat (Join [dir d, collection] @ ext) w) = Inl e2"
  shows "fst (ReadAll collection d w) = ([], Some (if IsNotExist e1 then e2 else e1)) \<and>
     (is_not_found (if IsNotExist e1 then e2 else e1) \<longleftrightarrow> IsNotExist e1 \<and> IsNotExist e2) \<and>
     is_io_error (if IsNotExist e1 then e2 else e1)"
proof -
  let ?p = "Join [dir d, collection]"
  note s = stat_fails[OF assms(2,3)]
  have "fst (ReadAll collection d w) = ([], Some (if IsNotExist e1 then e2 else e1))"
    using assms(1) s(1) by (cases "stat ?p w") (simp add: ReadAll_def Let_def)
  with s(2,3) show ?thesis by blast
qed

theorem ReadAll_missing_returns_stat_error_witness:
  "fst (os_Stat (Join [dir store0, ''users'']) empty_world) = Inl (PathError ''stat'' ENOENT) \<and>
   fst (os_Stat (Join [dir store0, ''users''] @ ext) empty_world) = Inl (PathError ''stat'' ENOENT) \<and>
   fst (ReadAll ''users'' store0 empty_world) = ([], Some (PathError ''stat'' ENOENT)) \<and>
   is_not_found (PathError ''stat'' ENOENT) \<and>
   fst (os_Stat (Join [dir store0, ''users.json/sub'']) world_users_json) = Inl (PathError ''stat'' ENOTDIR) \<and>
   fst (os_Stat (Join [dir store0, ''users.json/sub''] @ ext) world_users_json) = Inl (PathError ''stat'' ENOTDIR) \<and>
   fst (ReadAll ''users.json/sub'' store0 world_users_json) = ([], Some (PathError ''stat'' ENOTDIR)) \<and>
   is_io_error (PathError ''stat'' ENOTDIR)"
proof -
  have h1: "''users'' \<noteq> []" and h1': "''users.json/sub'' \<noteq> []" by simp_all
  have a2: "fst (os_Stat (Join [dir store0, ''users'']) empty_world) = Inl (PathError ''stat'' ENOENT)"
    by code_simp
  have a3: "fst (os_Stat (Join [dir store0, ''users''] @ ext) empty_world) = Inl (PathError ''stat'' ENOENT)"
    by code_simp
  have b2: "fst (os_Stat (Join [dir store0, ''users.json/sub'']) world_users_json) = Inl (PathError ''stat'' ENOTDIR)"
    by code_simp
  have b3: "fst (os_Stat (Join [dir store0, ''users.json/sub''] @ ext) world_users_json) = Inl (PathError ''stat'' ENOTDIR)"
    by code_simp
  note ta = ReadAll_missing_returns_stat_error[OF h1 a2 a3]
  note tb = ReadAll_missing_returns_stat_error[OF h1' b2 b3]
  from ta have ra: "fst (ReadAll ''users'' store0 empty_world) = ([], Some (PathError ''stat'' ENOENT))" by simp
  from ta have na: "is_not_found (PathError ''stat'' ENOENT)" by simp
  from tb have rb: "fst (ReadAll ''users.json/sub'' store0 world_users_json) = ([], Some (PathError ''stat'' ENOTDIR))"
    by simp
  from tb have nb: "is_io_error (PathError ''stat'' ENOTDIR)" by simp
  from a2 a3 ra na b2 b3 rb nb show ?thesis by (intro conjI)
qed

text \<open>
  C7, as stated, fails. With no directory \<^verbatim>\<open>users\<close> but a file \<^verbatim>\<open>users.json\<close> beside where it
  would be, the existence check of \<^verbatim>\<open>ReadAll("users")\<close> falls back on that file and
  succeeds, the error of the listing is dropped, and the call returns no records and
  no error. With a regular file named \<^verbatim>\<open>users\<close> in place of the directory, the check
  succeeds on that file and the call again returns no records and no error.
\<close>

theorem ReadAll_missing_directory_succeeds:
  "fst (os_Stat (Join [dir store0, ''users'']) world_users_json) = Inl (PathError ''stat'' ENOENT) \<and>
   fst (ReadAll ''users'' store0 world_users_json) = ([], None) \<and>
   fst (os_Stat (Join [dir store0, ''users'']) world_users_file) = Inr ModeRegular \<and>
   fst (ReadAll ''users'' store0 world_users_file) = ([], None)"
  by code_simp

section \<open>Failures inside Write\<close>

text \<open>
  C4. For a non-empty collection and resource, when the collection directory could be
  ensured and the value serialized but writing the temporary file
  \<^verbatim>\<open><r>.json.tmp\<close> fails, \<^verbatim>\<open>Write\<close> returns that I/O error; the calls it made are
  \<^verbatim>\<open>MkdirAll\<close> and \<^verbatim>\<open>WriteFile\<close> alone, so the rename never runs; and the resource file
  \<^verbatim>\<open><r>.json\<close>, like every regular file other than the temporary one, still reads the
  content it had before.
\<close>

theorem Write_temp_failure_keeps_resource:
  assumes "collection \<noteq> []" and "resource \<noteq> []"
    and "fst (os_MkdirAll (Join [dir d, collection]) w) = None"
    and "marshal v = Inr b"
    and "fst (os_WriteFile (Join [Join [dir d, collection], resource @ ext] @ ''.tmp'') (b @ [CHR 0x0A])
               (snd (os_MkdirAll (Join [dir d, collection]) w))) = Some e"
  shows "fst (Write marshal collection resource v d w) = Some e \<and> is_io_error e \<and>
     trace (snd (snd (Write marshal collection resource v d w))) =
       trace w @ [CMkdirAll (Join [dir d, collection]),
                  CWriteFile (Join [Join [dir d, collection], resource @ ext] @ ''.tmp'') (b @ [CHR 0x0A])] \<and>
     (\<forall>content. file_at w (Join [Join [dir d, collection], resource @ ext]) = Some content \<longrightarrow>
        file_at (snd (snd (Write marshal collection resource v d w)))
          (Join [Join [dir d, collection], resource @ ext]) = Some content) \<and>
     (\<forall>q content. file_at w q = Some content \<and>
          resolve w q \<noteq> resolve w (Join [Join [dir d, collection], resource @ ext] @ ''.tmp'') \<longrightarrow>
        file_at (snd (snd (Write marshal collection resource v d w))) q = Some content)"
proof -
  let ?cdir = "Join [dir d, collection]"
  let ?fnl = "Join [?cdir, resource @ ext]"
  let ?tmp = "?fnl @ ''.tmp''"
  let ?w1 = "snd (os_MkdirAll ?cdir w)"
  let ?w2 = "snd (os_WriteFile ?tmp (b @ [CHR 0x0A]) ?w1)"
  note eq = Write_temp_write_fails[where marshal=marshal and v=v, OF assms]
  have io: "is_io_error e" by (rule os_WriteFile_error[OF assms(5)])
  have res: "resolve ?w1 p = resolve w p" for p
    by (rule resolve_same) simp
  have keep: "file_at ?w2 q = Some content"
    if "file_at w q = Some content" and "resolve w q \<noteq> resolve w ?tmp" for q content
  proof -
    have "file_at ?w1 q = Some content" using that(1) by (rule os_MkdirAll_file_at)
    moreover have "resolve ?w1 q \<noteq> resolve ?w1 ?tmp" using that(2) by (simp add: res)
    ultimately show ?thesis by (rule os_WriteFile_keeps_other)
  qed
  have fnl: "resolve w ?fnl \<noteq> resolve w ?tmp"
    using temp_path_differs[of w ?cdir resource] by simp
  have "\<forall>content. file_at w ?fnl = Some content \<longrightarrow> file_at ?w2 ?fnl = Some content"
    using keep fnl by blast
  moreover have "\<forall>q content. file_at w q = Some content \<and> resolve w q \<noteq> resolve w ?tmp \<longrightarrow>
        file_at ?w2 q = Some content"
    using keep by blast
  ultimately show ?thesis using io by (simp add: eq)
qed

theorem Write_temp_failure_keeps_resource_witness:
  "fst (os_MkdirAll (Join [dir store0, ''users'']) world_tmp_dir) = None \<and>
   marshal_str ''new'' = Inr ''new'' \<and>
   fst (os_WriteFile (Join [Join [dir store0, ''users''], ''a'' @ ext] @ ''.tmp'') (''new'' @ [CHR 0x0A])
          (snd (os_MkdirAll (Join [dir store0, ''users'']) world_tmp_dir))) = Some (PathError ''open'' EISDIR) \<and>
   fst (Write marshal_str ''users'' ''a'' ''new'' store0 world_tmp_dir) = Some (PathError ''open'' EISDIR) \<and>
   file_at world_tmp_dir (Join [Join [dir store0, ''users''], ''a'' @ ext]) = Some ''old'' \<and>
   file_at (snd (snd (Write marshal_str ''users'' ''a'' ''new'' store0 world_tmp_dir)))
     (Join [Join [dir store0, ''users''], ''a'' @ ext]) = Some ''old'' \<and>
   fst (os_MkdirAll (Join [dir store0, ''users'']) world_full) = None \<and>
   fst (os_WriteFile (Join [Join [dir store0, ''users''], ''a'' @ ext] @ ''.tmp'') (''new'' @ [CHR 0x0A])
          (snd (os_MkdirAll (Join [dir store0, ''users'']) world_full))) = Some (PathError ''write'' ENOSPC) \<and>
   fst (Write marshal_str ''users'' ''a'' ''new'' store0 world_full) = Some (PathError ''write'' ENOSPC) \<and>
   trace (snd (snd (Write marshal_str ''users'' ''a'' ''new'' store0 world_full))) =
     trace world_full @ [CMkdirAll (Join [dir store0, ''users'']),
        CWriteFile (Join [Join [dir store0, ''users''], ''a'' @ ext] @ ''.tmp'') (''new'' @ [CHR 0x0A])] \<and>
   file_at world_full (Join [Join [dir store0, ''users''], ''a'' @ ext]) = Some ''old'' \<and>
   file_at (snd (snd (Write marshal_str ''users'' ''a'' ''new'' store0 world_full)))
     (Join [Join [dir store0, ''users''], ''a'' @ ext]) = Some ''old'' \<and>
   file_at (snd (snd (Write marshal_str ''users'' ''a'' ''new'' store0 world_full))) ''users/a.json.tmp'' = Some ''ne''"
proof -
  let ?fnl = "Join [Join [dir store0, ''users''], ''a'' @ ext]"
  have h1: "''users'' \<noteq> []" and h2: "''a'' \<noteq> []" by simp_all
  have h4: "marshal_str ''new'' = Inr ''new''" by (simp add: marshal_str_def)
  have a3: "fst (os_MkdirAll (Join [dir store0, ''users'']) world_tmp_dir) = None" by code_simp
  have a5: "fst (os_WriteFile (?fnl @ ''.tmp'') (''new'' @ [CHR 0x0A])
          (snd (os_MkdirAll (Join [dir store0, ''users'']) world_tmp_dir))) = Some (PathError ''open'' EISDIR)"
    by code_simp
  have av: "file_at world_tmp_dir ?fnl = Some ''old''" by code_simp
  have b3: "fst (os_MkdirAll (Join [dir store0, ''users'']) world_full) = None" by code_simp
  have b5: "fst (os_WriteFile (?fnl @ ''.tmp'') (''new'' @ [CHR 0x0A])
          (snd (os_MkdirAll (Join [dir store0, ''users'']) world_full))) = Some (PathError ''write'' ENOSPC)"
    by code_simp
  have bv: "file_at world_full ?fnl = Some ''old''" by code_simp
  have bt: "file_at (snd (snd (Write marshal_str ''users'' ''a'' ''new'' store0 world_full))) ''users/a.json.tmp'' = Some ''ne''"
    by code_simp
  note ta = Write_temp_failure_keeps_resource[where marshal=marshal_str and v="''new''", OF h1 h2 a3 h4 a5]
  note tb = Write_temp_failure_keeps_resource[where marshal=marshal_str and v="''new''", OF h1 h2 b3 h4 b5]
  from ta have ar: "fst (Write marshal_str ''users'' ''a'' ''new'' store0 world_tmp_dir) = Some (PathError ''open'' EISDIR)"
    by (rule conjunct1)
  from ta have "\<forall>content. file_at world_tmp_dir ?fnl = Some content \<longrightarrow>
      file_at (snd (snd (Write marshal_str ''users'' ''a'' ''new'' store0 world_tmp_dir))) ?fnl = Some content"
    by (elim conjE)
  with av have av': "file_at (snd (snd (Write marshal_str ''users'' ''a'' ''new'' store0 world_tmp_dir))) ?fnl = Some ''old''"
    by blast
  from tb have br: "fst (Write marshal_str ''users'' ''a'' ''new'' store0 world_full) = Some (PathError ''write'' ENOSPC)"
    by (rule conjunct1)
  from tb have btr: "trace (snd (snd (Write marshal_str ''users'' ''a'' ''new'' store0 world_full))) =
     trace world_full @ [CMkdirAll (Join [dir store0, ''users'']),
        CWriteFile (?fnl @ ''.tmp'') (''new'' @ [CHR 0x0A])]"
    by (elim conjE)
  from tb have "\<forall>content. file_at world_full ?fnl = Some content \<longrightarrow>
      file_at (snd (snd (Write marshal_str ''users'' ''a'' ''new'' store0 world_full))) ?fnl = Some content"
    by (elim conjE)
  with bv have bv': "file_at (snd (snd (Write marshal_str ''users'' ''a'' ''new'' store0 world_full))) ?fnl = Some ''old''"
    by blast
  from a3 h4 a5 ar av av' b3 b5 br btr bv bv' bt show ?thesis by (intro conjI)
qed

text \<open>
  C2, as the code has it. \<^verbatim>\<open>Write\<close> ensures the collection directory before it
  serializes. For a non-empty collection and resource, when serialization fails,
  \<^verbatim>\<open>Write\<close> returns the error of \<^verbatim>\<open>MkdirAll\<close> if that failed and the serialization error
  otherwise; its only call to the file system is that \<^verbatim>\<open>MkdirAll\<close>, which may create
  directories; the regular files in the table are the same before and after, and
  every regular file that could be read before still reads the same content.
\<close>

theorem Write_serialization_failure_no_file_change:
  assumes "collection \<noteq> []" and "resource \<noteq> []" and "marshal v = Inl e"
  shows "fst (Write marshal collection resource v d w) =
       (case fst (os_MkdirAll (Join [dir d, collection]) w) of Some e' \<Rightarrow> Some e' | None \<Rightarrow> Some e) \<and>
     (\<forall>e'. fst (os_MkdirAll (Join [dir d, collection]) w) = Some e' \<longrightarrow> is_io_error e') \<and>
     trace (snd (snd (Write marshal collection resource v d w))) = trace w @ [CMkdirAll (Join [dir d, collection])] \<and>
     (\<forall>k content. node_at (files (snd (snd (Write marshal collection resource v d w)))) k = Some (File content)
        \<longleftrightarrow> node_at (files w) k = Some (File content)) \<and>
     (\<forall>p content. file_at w p = Some content \<longrightarrow>
        file_at (snd (snd (Write marshal collection resource v d w))) p = Some content)"
proof -
  note eq = Write_serialization_fails[where marshal=marshal and v=v, OF assms]
  have "\<forall>k content. node_at (files (snd (snd (Write marshal collection resource v d w)))) k = Some (File content)
        \<longleftrightarrow> node_at (files w) k = Some (File content)"
    by (simp add: eq os_MkdirAll_file_nodes)
  moreover have "\<forall>p content. file_at w p = Some content \<longrightarrow>
        file_at (snd (snd (Write marshal collection resource v d w))) p = Some content"
    by (simp add: eq os_MkdirAll_file_at)
  moreover have "\<forall>e'. fst (os_MkdirAll (Join [dir d, collection]) w) = Some e' \<longrightarrow> is_io_error e'"
    using os_MkdirAll_error by blast
  ultimately show ?thesis by (simp add: eq)
qed

theorem Write_serialization_failure_no_file_change_witness:
  "marshal_fail ''new'' = Inl (SerializationError ''json: unsupported value'') \<and>
   fst (Write marshal_fail ''users'' ''a'' ''new'' store0 world_one_user) =
     Some (SerializationError ''json: unsupported value'') \<and>
   trace (snd (snd (Write marshal_fail ''users'' ''a'' ''new'' store0 world_one_user))) =
     trace world_one_user @ [CMkdirAll (Join [dir store0, ''users''])] \<and>
   file_at world_one_user ''users/a.json'' = Some ''old'' \<and>
   file_at (snd (snd (Write marshal_fail ''users'' ''a'' ''new'' store0 world_one_user))) ''users/a.json'' = Some ''old''"
proof -
  have h1: "''users'' \<noteq> []" and h2: "''a'' \<noteq> []" by simp_all
  have h3: "marshal_fail ''new'' = Inl (SerializationError ''json: unsupported value'')"
    by (simp add: marshal_fail_def)
  have m: "fst (os_MkdirAll (Join [dir store0, ''users'']) world_one_user) = None" by code_simp
  have v: "file_at world_one_user ''users/a.json'' = Some ''old''" by code_simp
  note t = Write_serialization_failure_no_file_change[where marshal=marshal_fail and v="''new''" and d=store0
      and w=world_one_user, OF h1 h2 h3]
  from t m have r: "fst (Write marshal_fail ''users'' ''a'' ''new'' store0 world_one_user) =
     Some (SerializationError ''json: unsupported value'')"
    by simp
  from t have tr: "trace (snd (snd (Write marshal_fail ''users'' ''a'' ''new'' store0 world_one_user))) =
     trace world_one_user @ [CMkdirAll (Join [dir store0, ''users''])]"
    by (elim conjE)
  from t have "\<forall>p content. file_at world_one_user p = Some content \<longrightarrow>
     file_at (snd (snd (Write marshal_fail ''users'' ''a'' ''new'' store0 world_one_user))) p = Some content"
    by (elim conjE)
  with v have v': "file_at (snd (snd (Write marshal_fail ''users'' ''a'' ''new'' store0 world_one_user))) ''users/a.json'' = Some ''old''"
    by blast
  from h3 r tr v v' show ?thesis by (intro conjI)
qed

text \<open>
  C2, as stated, fails: in a fresh store a \<^verbatim>\<open>Write("users", "a", v)\<close> whose serialization
  fails returns the serialization error and has created the directory \<^verbatim>\<open>users\<close>.
\<close>

theorem Write_serialization_failure_creates_directory:
  "marshal_fail ''new'' = Inl (SerializationError ''json: unsupported value'') \<and>
   fst (Write marshal_fail ''users'' ''a'' ''new'' store0 empty_world) =
     Some (SerializationError ''json: unsupported value'') \<and>
   lookup (files empty_world) [''users''] = Inl ENOENT \<and>
   lookup (files (snd (snd (Write marshal_fail ''users'' ''a'' ''new'' store0 empty_world)))) [''users''] = Inr Dir"
  by code_simp

section \<open>Delete\<close>




text \<open>
  C10, as the code has it. \<^verbatim>\<open>Delete\<close> does not reject an empty resource. For a collection
  name that is a plain path and whose directory \<^verbatim>\<open>root/c\<close> exists, \<^verbatim>\<open>Delete(c, "")\<close> checks
  that directory, calls \<^verbatim>\<open>RemoveAll\<close> on it and returns success; afterwards nothing is
  left at or below the collection directory, and every other entry is as before.
\<close>

theorem Delete_empty_resource_removes_collection:
  assumes "plain_path collection"
    and "fst (os_Stat (Join [dir d, collection]) w) = Inr ModeDir"
  shows "fst (Delete collection [] d w) = None \<and>
     trace (snd (snd (Delete collection [] d w))) =
       trace w @ [CStat (Join [dir d, collection]), CRemoveAll (Join [dir d, collection])] \<and>
     (\<forall>k k'. resolve w (Join [dir d, collection]) = Some k \<longrightarrow>
        map_of (files (snd (snd (Delete collection [] d w)))) k' =
          (if is_under k k' then None else map_of (files w) k'))"
proof -
  let ?p = "Join [dir d, collection]"
  let ?w1 = "logc (CStat ?p) w"
  have j: "Join [collection, []] = collection" by (rule Join_plain_path_empty[OF assms(1)])
  have nd: "\<not> endsWithDot ?p" by (rule Join_plain_path_not_dot[OF assms(1)])
  have st: "stat ?p w = (Inr ModeDir, ?w1)" using assms(2) by (simp add: stat_eq)
  have D: "Delete collection [] d w =
      (fst (os_RemoveAll ?p ?w1), snd (getOrCreateMutex collection d), snd (os_RemoveAll ?p ?w1))"
    by (simp add: Delete_eq j st)
  from os_Stat_ok_resolve[OF assms(2)] obtain k0 where k0: "resolve w ?p = Some k0" by blast
  have s1: "fst (os_Stat ?p ?w1) = Inr ModeDir" using assms(2) by simp
  have r1: "resolve ?w1 ?p = Some k0" using k0 by simp
  note ra = os_RemoveAll_existing[OF s1 nd r1]
  have "fst (Delete collection [] d w) = None" using ra by (simp add: D)
  moreover have "trace (snd (snd (Delete collection [] d w))) = trace w @ [CStat ?p, CRemoveAll ?p]"
    by (simp add: D)
  moreover have "\<forall>k k'. resolve w ?p = Some k \<longrightarrow>
        map_of (files (snd (snd (Delete collection [] d w)))) k' =
          (if is_under k k' then None else map_of (files w) k')"
    using ra k0 by (simp add: D)
  ultimately show ?thesis by blast
qed

theorem Delete_empty_resource_removes_collection_witness:
  "plain_path ''users'' \<and>
   fst (os_Stat (Join [dir store0, ''users'']) world_two_users) = Inr ModeDir \<and>
   resolve world_two_users (Join [dir store0, ''users'']) = Some [''users''] \<and>
   fst (Delete ''users'' [] store0 world_two_users) = None \<and>
   trace (snd (snd (Delete ''users'' [] store0 world_two_users))) =
     trace world_two_users @ [CStat (Join [dir store0, ''users'']), CRemoveAll (Join [dir store0, ''users''])] \<and>
   map_of (files (snd (snd (Delete ''users'' [] store0 world_two_users)))) [''users''] = None \<and>
   map_of (files (snd (snd (Delete ''users'' [] store0 world_two_users)))) [''users'', ''a.json''] = None \<and>
   map_of (files (snd (snd (Delete ''users'' [] store0 world_two_users)))) [''users'', ''b.json''] = None"
proof -
  have h1: "plain_path ''users''" by code_simp
  have h2: "fst (os_Stat (Join [dir store0, ''users'']) world_two_users) = Inr ModeDir" by code_simp
  have k: "resolve world_two_users (Join [dir store0, ''users'']) = Some [''users'']" by code_simp
  have u: "is_under [''users''] [''users'']" "is_under [''users''] [''users'', ''a.json'']"
    "is_under [''users''] [''users'', ''b.json'']" by code_simp+
  note t = Delete_empty_resource_removes_collection[OF h1 h2]
  from t have r: "fst (Delete ''users'' [] store0 world_two_users) = None" by (rule conjunct1)
  from t have tr: "trace (snd (snd (Delete ''users'' [] store0 world_two_users))) =
     trace world_two_users @ [CStat (Join [dir store0, ''users'']), CRemoveAll (Join [dir store0, ''users''])]"
    by (elim conjE)
  from t have "\<forall>k k'. resolve world_two_users (Join [dir store0, ''users'']) = Some k \<longrightarrow>
        map_of (files (snd (snd (Delete ''users'' [] store0 world_two_users)))) k' =
          (if is_under k k' then None else map_of (files world_two_users) k')"
    by (elim conjE)
  with k have m: "map_of (files (snd (snd (Delete ''users'' [] store0 world_two_users)))) k' =
          (if is_under [''users''] k' then None else map_of (files world_two_users) k')" for k'
    by blast
  have m1: "map_of (files (snd (snd (Delete ''users'' [] store0 world_two_users)))) [''users''] = None"
    using m[of "[''users'']"] u(1) by simp
  have m2: "map_of (files (snd (snd (Delete ''users'' [] store0 world_two_users)))) [''users'', ''a.json''] = None"
    using m[of "[''users'', ''a.json'']"] u(2) by simp
  have m3: "map_of (files (snd (snd (Delete ''users'' [] store0 world_two_users)))) [''users'', ''b.json''] = None"
    using m[of "[''users'', ''b.json'']"] u(3) by simp
  from h1 h2 k r tr m1 m2 m3 show ?thesis by (intro conjI)
qed

text \<open>
  C10, as stated for every non-empty collection name, fails on names that are not plain.
  In a store opened on \<^verbatim>\<open>db\<close>, the directory of the collection \<^verbatim>\<open>/..\<close> is
  \<^verbatim>\<open>Join("db", "/..") = "."\<close>, where \<^verbatim>\<open>Write\<close> puts its resources; \<^verbatim>\<open>Delete("/..", "")\<close> joins the
  name with the empty resource first, which gives \<^verbatim>\<open>/\<close>, and so removes \<^verbatim>\<open>db\<close> and leaves the
  collection's resource \<^verbatim>\<open>x.json\<close> in place. In a store opened on \<^verbatim>\<open>./\<close>, \<^verbatim>\<open>Delete(".", "")\<close>
  finds the directory \<^verbatim>\<open>.\<close>, \<^verbatim>\<open>RemoveAll\<close> refuses it, and the call returns that error.
\<close>

theorem Delete_empty_resource_other_directory:
  "Join [dir store_db, ''/..''] = ''.'' \<and>
   fst (os_Stat (Join [dir store_db, ''/..'']) world_db) = Inr ModeDir \<and>
   file_at world_db (Join [Join [dir store_db, ''/..''], ''x'' @ ext]) = Some ''X'' \<and>
   Join [dir store_db, Join [''/..'', []]] = ''db'' \<and>
   fst (Delete ''/..'' [] store_db world_db) = None \<and>
   file_at (snd (snd (Delete ''/..'' [] store_db world_db))) (Join [Join [dir store_db, ''/..''], ''x'' @ ext]) = Some ''X'' \<and>
   lookup (files (snd (snd (Delete ''/..'' [] store_db world_db)))) [''db''] = Inl ENOENT \<and>
   fst (os_Stat (Join [dir store0, ''.'']) world_one_user) = Inr ModeDir \<and>
   fst (Delete ''.'' [] store0 world_one_user) = Some (PathError ''RemoveAll'' EINVAL) \<and>
   files (snd (snd (Delete ''.'' [] store0 world_one_user))) = files world_one_user"
  by code_simp

section \<open>The lock registry\<close>

text \<open>
  C9. The registry holds one lock per collection name and only grows: a lookup leaves
  every entry in place and registers the lock it returns; every run of \<^verbatim>\<open>Write\<close>, \<^verbatim>\<open>Read\<close>,
  \<^verbatim>\<open>ReadAll\<close> and \<^verbatim>\<open>Delete\<close> calls leaves every entry in place; and once a collection has a
  lock, a lookup after any such run returns that same lock and changes nothing.
\<close>

theorem lock_registry_only_grows:
  "mutexes d \<subseteq>\<^sub>m mutexes (snd (getOrCreateMutex c d)) \<and>
   mutexes (snd (getOrCreateMutex c d)) c = Some (fst (getOrCreateMutex c d)) \<and>
   mutexes d \<subseteq>\<^sub>m mutexes (fst (run marshal unmarshal ops (d, w))) \<and>
   (mutexes d c = Some l \<longrightarrow>
      getOrCreateMutex c (fst (run marshal unmarshal ops (d, w))) = (l, fst (run marshal unmarshal ops (d, w))))"
proof -
  have g: "mutexes d \<subseteq>\<^sub>m mutexes (fst (run marshal unmarshal ops (d, w)))"
    using run_grows[of "(d, w)" marshal unmarshal ops] by simp
  have "getOrCreateMutex c (fst (run marshal unmarshal ops (d, w))) = (l, fst (run marshal unmarshal ops (d, w)))"
    if "mutexes d c = Some l"
  proof -
    from that have "c \<in> dom (mutexes d)" by auto
    with g have "mutexes (fst (run marshal unmarshal ops (d, w))) c = mutexes d c"
      by (simp add: map_le_def)
    with that show ?thesis by (simp add: getOrCreateMutex_known)
  qed
  with g show ?thesis
    by (simp add: getOrCreateMutex_grows getOrCreateMutex_registered)
qed

theorem lock_registry_only_grows_witness:
  "mutexes (snd (getOrCreateMutex ''users'' store0)) ''users'' = Some 0 \<and>
   getOrCreateMutex ''users''
       (fst (run marshal_str unmarshal_str example_ops (snd (getOrCreateMutex ''users'' store0), empty_world))) =
     (0, fst (run marshal_str unmarshal_str example_ops (snd (getOrCreateMutex ''users'' store0), empty_world)))"
proof -
  have h: "mutexes (snd (getOrCreateMutex ''users'' store0)) ''users'' = Some 0"
    by (simp add: getOrCreateMutex_def store0_def)
  from lock_registry_only_grows[where d="snd (getOrCreateMutex ''users'' store0)" and c="''users''" and l=0
      and marshal=marshal_str and unmarshal=unmarshal_str and ops=example_ops and w=empty_world] h
  have "getOrCreateMutex ''users''
       (fst (run marshal_str unmarshal_str example_ops (snd (getOrCreateMutex ''users'' store0), empty_world))) =
     (0, fst (run marshal_str unmarshal_str example_ops (snd (getOrCreateMutex ''users'' store0), empty_world)))"
    by blast
  with h show ?thesis by (rule conjI)
qed

end
